theory Spec2Isabelle
  imports Main "HOL-Library.AList"
begin

section \<open>Exceptions and time\<close>

text \<open>
  An exception is a value; every function that can raise returns \<open>error + 'a\<close>, with
  \<open>Inl\<close> for the exception. \<open>ServiceError\<close> stands for any exception class raised by
  an external service (vector store, cache, language model, PDF backend).
\<close>

datatype error =
    IndexError string
  | ValueError string
  | Exception string
  | ServiceError string

fun error_str :: "error \<Rightarrow> string" where
  "error_str (IndexError m) = m"
| "error_str (ValueError m) = m"
| "error_str (Exception m) = m"
| "error_str (ServiceError m) = m"

text \<open>
  A \<open>datetime\<close> is a number of microseconds on the naive local time line, and so is
  the \<open>timedelta\<close> between two of them.
\<close>

type_synonym time = int

section \<open>Strings\<close>

text \<open>
  A Python \<open>str\<close> is modelled as a \<open>string\<close>: a list of characters whose code points
  lie below 256. \<open>NL\<close> is the line feed \<open>'\n'\<close>.
\<close>

abbreviation NL :: char where
  "NL \<equiv> CHR 0x0A"

text \<open>
  \<open>str.isspace\<close> and the regular expression class \<open>\s\<close> on code points below 256:
  tab, line feed, vertical tab, form feed, carriage return, the four separators
  0x1C..0x1F, the blank, NEL (0x85) and the no-break space (0xA0).
\<close>

definition isspace :: "char \<Rightarrow> bool" where
  "isspace c =
     (let n = (of_char c :: nat)
      in (9 \<le> n \<and> n \<le> 13) \<or> (28 \<le> n \<and> n \<le> 32) \<or> n = 133 \<or> n = 160)"

text \<open>The class \<open>\d\<close> (below 256 the decimal digits are \<open>0\<close>..\<open>9\<close>) and \<open>[A-Z]\<close>.\<close>

definition isdigit :: "char \<Rightarrow> bool" where
  "isdigit c = (let n = (of_char c :: nat) in 48 \<le> n \<and> n \<le> 57)"

definition isupper_AZ :: "char \<Rightarrow> bool" where
  "isupper_AZ c = (let n = (of_char c :: nat) in 65 \<le> n \<and> n \<le> 90)"

text \<open>\<open>s.split(sep)\<close> for a one-character separator: never empty, \<open>''.split(sep) = ['']\<close>.\<close>

fun str_split :: "char \<Rightarrow> string \<Rightarrow> string list" where
  "str_split sep [] = [[]]"
| "str_split sep (c # cs) =
     (if c = sep then [] # str_split sep cs
      else (case str_split sep cs of
              [] \<Rightarrow> [[c]]
            | l # ls \<Rightarrow> (c # l) # ls))"

text \<open>\<open>s.strip()\<close>: whitespace removed at both ends.\<close>

definition strip :: "string \<Rightarrow> string" where
  "strip s = rev (dropWhile isspace (rev (dropWhile isspace s)))"

text \<open>\<open>str(n)\<close> for an integer: decimal digits, with a sign when negative.\<close>

fun str_nat :: "nat \<Rightarrow> string" where
  "str_nat n =
     (if n < 10 then [char_of (48 + n)]
      else str_nat (n div 10) @ [char_of (48 + n mod 10)])"

declare str_nat.simps [simp del]

definition str_int :: "int \<Rightarrow> string" where
  "str_int i = (if i < 0 then CHR ''-'' # str_nat (nat (- i)) else str_nat (nat i))"

text \<open>\<open>xs[i]\<close> on a Python sequence: a negative index counts from the end.\<close>

definition py_index :: "'a list \<Rightarrow> int \<Rightarrow> error + 'a" where
  "py_index xs i =
     (if 0 \<le> i \<and> i < int (length xs) then Inr (xs ! nat i)
      else if - int (length xs) \<le> i \<and> i < 0 then Inr (xs ! nat (int (length xs) + i))
      else Inl (IndexError ''list index out of range''))"

text \<open>\<open>xs[-k:]\<close> for a positive \<open>k\<close>: the last \<open>k\<close> elements, or all of a shorter list.\<close>

definition py_last :: "nat \<Rightarrow> 'a list \<Rightarrow> 'a list" where
  "py_last k xs = drop (length xs - k) xs"

text \<open>\<open>sep.join(parts)\<close>.\<close>

fun str_join :: "string \<Rightarrow> string list \<Rightarrow> string" where
  "str_join sep [] = []"
| "str_join sep [p] = p"
| "str_join sep (p # q # ps) = p @ sep @ str_join sep (q # ps)"

section \<open>Header patterns\<close>

text \<open>
  The four patterns of \<open>_is_section_header\<close> are matched by \<open>re.match\<close>, that is at the
  start of the line. Each is a sequence of items; an item consumes a prefix of the
  remaining input and yields the rest, or fails. In every pattern the class under a
  \<open>+\<close> is disjoint from the first character the next item accepts, so the longest run
  is the only one after which the rest of the pattern can match, and backtracking
  adds nothing.
\<close>

definition many1 :: "(char \<Rightarrow> bool) \<Rightarrow> string \<Rightarrow> string option" where
  "many1 P s = (if takeWhile P s = [] then None else Some (dropWhile P s))"

definition one :: "(char \<Rightarrow> bool) \<Rightarrow> string \<Rightarrow> string option" where
  "one P s = (case s of [] \<Rightarrow> None | c # cs \<Rightarrow> if P c then Some cs else None)"

definition lit :: "string \<Rightarrow> string \<Rightarrow> string option" where
  "lit p s = (if take (length p) s = p then Some (drop (length p) s) else None)"

text \<open>\<open>^\d+\.\d+\s+[A-Z]\<close>, as in "1.1 GENERAL".\<close>

definition pat_numbered_sub :: "string \<Rightarrow> bool" where
  "pat_numbered_sub s =
     (Option.bind (Option.bind (Option.bind (Option.bind (many1 isdigit s)
        (lit ''.'')) (many1 isdigit)) (many1 isspace)) (one isupper_AZ) \<noteq> None)"

text \<open>\<open>^SECTION\s+\d{2}\<close>, as in "SECTION 01".\<close>

definition pat_section :: "string \<Rightarrow> bool" where
  "pat_section s =
     (Option.bind (Option.bind (Option.bind (lit ''SECTION'' s)
        (many1 isspace)) (one isdigit)) (one isdigit) \<noteq> None)"

text \<open>\<open>^Article\s+\d+\<close>, as in "Article 1".\<close>

definition pat_article :: "string \<Rightarrow> bool" where
  "pat_article s =
     (Option.bind (Option.bind (lit ''Article'' s) (many1 isspace)) (many1 isdigit) \<noteq> None)"

text \<open>\<open>^\d+\.\s+[A-Z]\<close>, as in "1. SCOPE".\<close>

definition pat_numbered :: "string \<Rightarrow> bool" where
  "pat_numbered s =
     (Option.bind (Option.bind (Option.bind (many1 isdigit s)
        (lit ''.'')) (many1 isspace)) (one isupper_AZ) \<noteq> None)"

definition is_section_header :: "string \<Rightarrow> bool" where
  "is_section_header line =
     (pat_numbered_sub line \<or> pat_section line \<or> pat_article line \<or> pat_numbered line)"

section \<open>Sectioner: \<open>DocumentProcessor._split_into_sections\<close>\<close>

record doc_section =
  title :: string
  content :: string
  page :: int

text \<open>
  One turn of the loop over the lines. The loop state is the list \<open>sections\<close> and the
  dictionary \<open>current_section\<close>.
\<close>

definition section_step :: "int \<Rightarrow> doc_section list \<times> doc_section \<Rightarrow> string \<Rightarrow> doc_section list \<times> doc_section" where
  "section_step page_num st raw =
     (let sections = fst st; current_section = snd st; line = strip raw
      in if line = [] then (sections, current_section)
         else if is_section_header line then
           ((if content current_section \<noteq> [] then sections @ [current_section] else sections),
            \<lparr>title = line, content = [], page = page_num\<rparr>)
         else (sections, current_section\<lparr>content := content current_section @ line @ [NL]\<rparr>))"

text \<open>The final test of \<open>_split_into_sections\<close>, after the loop.\<close>

definition final_section :: "doc_section list \<times> doc_section \<Rightarrow> doc_section list" where
  "final_section st =
     (if content (snd st) \<noteq> [] then fst st @ [snd st] else fst st)"

definition sections_of_lines :: "string list \<Rightarrow> int \<Rightarrow> doc_section list" where
  "sections_of_lines lines page_num =
     final_section
       (foldl (section_step page_num) ([], \<lparr>title = [], content = [], page = page_num\<rparr>) lines)"

definition split_into_sections :: "string \<Rightarrow> int \<Rightarrow> doc_section list" where
  "split_into_sections text page_num = sections_of_lines (str_split NL text) page_num"

section \<open>PDF text source: \<open>FitzPDFHandler.get_page_text\<close>\<close>

text \<open>
  The document of the PDF backend is a sequence of pages, indexed as a Python
  sequence; a page is the outcome of its \<open>get_text()\<close>, a text or an exception.
\<close>

type_synonym document = "(error + string) list"

definition number_of_pages :: "document \<Rightarrow> int" where
  "number_of_pages document = int (length document)"

definition get_page_text :: "document \<Rightarrow> int \<Rightarrow> error + string" where
  "get_page_text document page_number =
     (case (case py_index document (page_number - 1) of
              Inl e \<Rightarrow> Inl e
            | Inr pg \<Rightarrow> pg) of
        Inr text \<Rightarrow> Inr text
      | Inl (IndexError m) \<Rightarrow>
          Inl (ValueError (''Page number '' @ str_int page_number @ '' out of range''))
      | Inl e \<Rightarrow>
          Inl (Exception (''Error extracting text from page '' @ str_int page_number
                 @ '': '' @ error_str e)))"

section \<open>Batch accumulator and answer engine: \<open>DocumentRetriever\<close>\<close>

record batch_entry =
  doc_id :: string
  sections :: "doc_section list"
  timestamp :: time

text \<open>
  The metadata dictionary of an indexed record. \<open>processed_at\<close> holds the instant whose
  \<open>isoformat()\<close> the source stores.
\<close>

record metadata =
  md_doc_id :: string
  md_title :: string
  md_page :: int
  md_processed_at :: time

text \<open>What \<open>collection.query\<close> returns: one list per query text.\<close>

record query_result =
  documents :: "string list list"
  metadatas :: "metadata list list"

record source_ref =
  src_title :: string
  src_page :: int
  src_doc_id :: string

record response =
  answer :: string
  sources :: "source_ref list"

text \<open>
  The settings and the external services. \<open>'v\<close> is the state of the vector store and
  \<open>'c\<close> the state of the cache; both are opaque. \<open>clock n\<close> is what the \<open>n\<close>-th call of
  \<open>datetime.now()\<close> returns. \<open>chat_completion\<close> takes the system and the user message
  and yields \<open>response.choices[0].message.content\<close>. The semaphore bounds concurrent
  calls and has no effect on a single request.
\<close>

record ('v, 'c) services =
  BATCH_SIZE :: int
  clock :: "nat \<Rightarrow> time"
  collection_add :: "string list \<Rightarrow> metadata list \<Rightarrow> string list \<Rightarrow> 'v \<Rightarrow> error + 'v"
  collection_query :: "string \<Rightarrow> nat \<Rightarrow> 'v \<Rightarrow> error + query_result"
  redis_get :: "string \<Rightarrow> 'c \<Rightarrow> error + string option"
  redis_set :: "string \<Rightarrow> string \<Rightarrow> nat \<Rightarrow> 'c \<Rightarrow> error + 'c"
  chat_completion :: "string \<Rightarrow> string \<Rightarrow> error + string"
  json_dumps :: "response \<Rightarrow> string"
  json_loads :: "string \<Rightarrow> error + response"

text \<open>The fields of a \<open>DocumentRetriever\<close>, and the number of clock readings so far.\<close>

record ('v, 'c) document_retriever =
  collection :: 'v
  redis :: 'c
  batch_queue :: "batch_entry list"
  last_process_time :: time
  clock_reads :: nat

text \<open>\<open>(a - b).seconds\<close>: the seconds field of the normalised \<open>timedelta\<close>, in 0..86399.\<close>

definition timedelta_seconds :: "time \<Rightarrow> time \<Rightarrow> int" where
  "timedelta_seconds a b = ((a - b) div 1000000) mod 86400"

text \<open>
  The inner loop of \<open>_process_batch\<close>, over \<open>enumerate(item["sections"])\<close> from index
  \<open>idx\<close>: one triple (document, metadata, id) per section, each reading the clock.
\<close>

fun section_records ::
  "(nat \<Rightarrow> time) \<Rightarrow> string \<Rightarrow> nat \<Rightarrow> nat \<Rightarrow> doc_section list \<Rightarrow> (string \<times> metadata \<times> string) list" where
  "section_records clk d idx n [] = []"
| "section_records clk d idx n (s # ss) =
     (content s,
      \<lparr>md_doc_id = d, md_title = title s, md_page = page s, md_processed_at = clk n\<rparr>,
      d @ ''_section_'' @ str_nat idx)
     # section_records clk d (Suc idx) (Suc n) ss"

text \<open>The outer loop, over the queue.\<close>

fun batch_records ::
  "(nat \<Rightarrow> time) \<Rightarrow> nat \<Rightarrow> batch_entry list \<Rightarrow> (string \<times> metadata \<times> string) list" where
  "batch_records clk n [] = []"
| "batch_records clk n (item # items) =
     section_records clk (doc_id item) 0 n (sections item)
     @ batch_records clk (n + length (sections item)) items"

definition process_batch ::
  "('v, 'c) services \<Rightarrow> ('v, 'c) document_retriever
     \<Rightarrow> (error + unit) \<times> ('v, 'c) document_retriever" where
  "process_batch svc st =
     (if batch_queue st = [] then (Inr (), st)
      else
        let recs = batch_records (clock svc) (clock_reads st) (batch_queue st);
            docs = map fst recs;
            metadata = map (fst \<circ> snd) recs;
            ids = map (snd \<circ> snd) recs;
            st1 = st\<lparr>clock_reads := clock_reads st + length recs\<rparr>
        in case collection_add svc docs metadata ids (collection st1) of
             Inl e \<Rightarrow> (Inl e, st1)
           | Inr v \<Rightarrow>
               (Inr (),
                st1\<lparr>collection := v,
                    last_process_time := clock svc (clock_reads st1),
                    clock_reads := Suc (clock_reads st1),
                    batch_queue := []\<rparr>))"

text \<open>
  \<open>add_sections\<close>; \<open>uuid_hex\<close> is the value of \<open>uuid.uuid4().hex\<close>. The test is an
  \<open>or\<close>: the clock is read for it only when the queue is shorter than the batch size.
\<close>

definition add_sections ::
  "('v, 'c) services \<Rightarrow> string \<Rightarrow> string \<Rightarrow> doc_section list \<Rightarrow> ('v, 'c) document_retriever
     \<Rightarrow> (error + unit) \<times> ('v, 'c) document_retriever" where
  "add_sections svc doc uuid_hex secs st =
     (let unique_doc_id = doc @ ''_'' @ take 8 uuid_hex;
          st1 = st\<lparr>batch_queue := batch_queue st
                       @ [\<lparr>doc_id = unique_doc_id, sections = secs,
                           timestamp = clock svc (clock_reads st)\<rparr>],
                    clock_reads := Suc (clock_reads st)\<rparr>
      in if int (length (batch_queue st1)) \<ge> BATCH_SIZE svc then process_batch svc st1
         else
           let st2 = st1\<lparr>clock_reads := Suc (clock_reads st1)\<rparr>
           in if timedelta_seconds (clock svc (clock_reads st1)) (last_process_time st1) > 60
              then process_batch svc st2
              else (Inr (), st2))"

text \<open>\<open>_format_prompt\<close>; it reads \<open>results["metadatas"][0]\<close> and raises where that is absent.\<close>

definition format_prompt :: "string \<Rightarrow> query_result \<Rightarrow> string option \<Rightarrow> error + string" where
  "format_prompt question results context =
     (let parts0 = (case context of
                      None \<Rightarrow> []
                    | Some c \<Rightarrow> if c = [] then [] else [c]);
          tail = [NL # ''Question: '' @ question]
      in if documents results \<noteq> [] \<and> hd (documents results) \<noteq> [] then
           (case py_index (metadatas results) 0 of
              Inl e \<Rightarrow> Inl e
            | Inr metas \<Rightarrow>
                Inr (str_join [NL]
                  (parts0 @ [''Relevant sections:'']
                   @ concat (map (\<lambda>(d, meta).
                        [NL # ''Section: '' @ md_title meta
                           @ '' (Page '' @ str_int (md_page meta) @ '')'',
                         ''Content: '' @ d])
                      (zip (hd (documents results)) metas))
                   @ tail)))
         else Inr (str_join [NL] (parts0 @ [''No relevant sections found.''] @ tail)))"

definition generate_response ::
  "('v, 'c) services \<Rightarrow> string \<Rightarrow> query_result \<Rightarrow> string option \<Rightarrow> error + response" where
  "generate_response svc question results context =
     (case format_prompt question results context of
        Inl e \<Rightarrow> Inl e
      | Inr prompt \<Rightarrow>
          (case chat_completion svc ''You are a construction document assistant.'' prompt of
             Inl e \<Rightarrow> Inl e
           | Inr text \<Rightarrow>
               (case py_index (metadatas results) 0 of
                  Inl e \<Rightarrow> Inl e
                | Inr metas \<Rightarrow>
                    Inr \<lparr>answer = text,
                         sources = map (\<lambda>meta. \<lparr>src_title = md_title meta,
                                                src_page = md_page meta,
                                                src_doc_id = md_doc_id meta\<rparr>) metas\<rparr>)))"

definition nothing_relevant :: response where
  "nothing_relevant =
     \<lparr>answer = ''I couldn'' @ [CHR 0x27]
                 @ ''t find anything relevant in the docs. Could you try rephrasing?'',
      sources = []\<rparr>"

text \<open>
  \<open>query\<close>. A cached value counts as a hit when it is truthy: present and not empty.
\<close>

definition query ::
  "('v, 'c) services \<Rightarrow> string \<Rightarrow> string option \<Rightarrow> ('v, 'c) document_retriever
     \<Rightarrow> (error + response) \<times> ('v, 'c) document_retriever" where
  "query svc question context st =
     (let cache_key = ''query:'' @ question
      in case redis_get svc cache_key (redis st) of
           Inl e \<Rightarrow> (Inl e, st)
         | Inr (Some (b # bs)) \<Rightarrow>
             (case json_loads svc (b # bs) of
                Inl e \<Rightarrow> (Inl e, st)
              | Inr cached \<Rightarrow> (Inr cached, st))
         | Inr _ \<Rightarrow>
             (case collection_query svc question 3 (collection st) of
                Inl e \<Rightarrow> (Inl e, st)
              | Inr results \<Rightarrow>
                  if documents results = [] \<or> hd (documents results) = []
                  then (Inr nothing_relevant, st)
                  else
                    (case generate_response svc question results context of
                       Inl e \<Rightarrow> (Inl e, st)
                     | Inr resp \<Rightarrow>
                         (case redis_set svc cache_key (json_dumps svc resp) 300 (redis st) of
                            Inl e \<Rightarrow> (Inl e, st)
                          | Inr c \<Rightarrow> (Inr resp, st\<lparr>redis := c\<rparr>)))))"

section \<open>Conversation window: \<open>ConstructionChatbot\<close>\<close>

text \<open>A history entry; \<open>h_timestamp\<close> holds the instant whose \<open>isoformat()\<close> is stored.\<close>

record conversation_entry =
  question :: string
  h_answer :: string
  h_timestamp :: time

record ('v, 'c) construction_chatbot =
  retriever :: "('v, 'c) document_retriever"
  history :: "conversation_entry list"

definition get_context :: "conversation_entry list \<Rightarrow> string" where
  "get_context hist =
     str_join [NL]
       (''Recent conversation:''
        # concat (map (\<lambda>entry. [''Q: '' @ question entry, ''A: '' @ h_answer entry @ [NL]])
                   (py_last 2 hist)))"

text \<open>The history update of \<open>chat\<close>: \<open>append\<close>, then \<open>pop(0)\<close> when longer than 5.\<close>

definition update_history :: "conversation_entry list \<Rightarrow> conversation_entry \<Rightarrow> conversation_entry list" where
  "update_history hist entry =
     (let h = hist @ [entry] in if length h > 5 then tl h else h)"

definition chat ::
  "('v, 'c) services \<Rightarrow> string \<Rightarrow> ('v, 'c) construction_chatbot
     \<Rightarrow> (error + response) \<times> ('v, 'c) construction_chatbot" where
  "chat svc message self =
     (let context = (if history self \<noteq> [] then Some (get_context (history self)) else None)
      in case query svc message context (retriever self) of
           (Inl e, r) \<Rightarrow> (Inl e, self\<lparr>retriever := r\<rparr>)
         | (Inr resp, r) \<Rightarrow>
             (Inr resp,
              \<lparr>retriever = r\<lparr>clock_reads := Suc (clock_reads r)\<rparr>,
               history = update_history (history self)
                           \<lparr>question = message, h_answer = answer resp,
                            h_timestamp = clock svc (clock_reads r)\<rparr>\<rparr>))"

section \<open>Sequences of calls\<close>

text \<open>
  \<open>add_sections\<close> called for each (document id, uuid, sections) in turn, up to the
  first exception.
\<close>

fun enqueue_all ::
  "('v, 'c) services \<Rightarrow> (string \<times> string \<times> doc_section list) list
     \<Rightarrow> ('v, 'c) document_retriever \<Rightarrow> (error + unit) \<times> ('v, 'c) document_retriever" where
  "enqueue_all svc [] st = (Inr (), st)"
| "enqueue_all svc (item # rest) st =
     (case add_sections svc (fst item) (fst (snd item)) (snd (snd item)) st of
        (Inl e, st') \<Rightarrow> (Inl e, st')
      | (Inr u, st') \<Rightarrow> enqueue_all svc rest st')"

text \<open>
  The batch entries that such calls append while none of them flushes: each call reads
  the clock twice, first for the entry's timestamp.
\<close>

fun queued_entries :: "(nat \<Rightarrow> time) \<Rightarrow> nat \<Rightarrow> (string \<times> string \<times> doc_section list) list \<Rightarrow> batch_entry list" where
  "queued_entries clk n [] = []"
| "queued_entries clk n (item # rest) =
     \<lparr>doc_id = fst item @ ''_'' @ take 8 (fst (snd item)), sections = snd (snd item),
      timestamp = clk n\<rparr>
     # queued_entries clk (n + 2) rest"

text \<open>\<open>chat\<close> called for each message in turn, up to the first exception.\<close>

fun chat_all ::
  "('v, 'c) services \<Rightarrow> string list \<Rightarrow> ('v, 'c) construction_chatbot
     \<Rightarrow> (error + response list) \<times> ('v, 'c) construction_chatbot" where
  "chat_all svc [] self = (Inr [], self)"
| "chat_all svc (m # ms) self =
     (case chat svc m self of
        (Inl e, self') \<Rightarrow> (Inl e, self')
      | (Inr r, self') \<Rightarrow>
          (case chat_all svc ms self' of
             (Inl e, self'') \<Rightarrow> (Inl e, self'')
           | (Inr rs, self'') \<Rightarrow> (Inr (r # rs), self'')))"

section \<open>A vector store and a cache\<close>

type_synonym vector_store = "(string \<times> string \<times> metadata) list"

text \<open>
  Modelled from the spec: the vector store's insert. The store (chromadb's collection)
  is an external service and its code is not part of the repository; the spec gives an
  indexed record its id as identity, so that writing an id again overwrites the record
  and does not duplicate it. The store is a list of records keyed by id; inserting a
  record replaces the one with the same id, or appends it.
\<close>

fun store_insert :: "string list \<Rightarrow> metadata list \<Rightarrow> string list \<Rightarrow> vector_store \<Rightarrow> vector_store" where
  "store_insert (d # ds) (m # ms) (i # ids) store =
     store_insert ds ms ids (AList.update i (d, m) store)"
| "store_insert ds ms ids store = store"

text \<open>
  Modelled from the spec: \<open>collection.add\<close> of that store, which is absent from the
  repository as well; it inserts the records and does not fail.
\<close>

definition store_add :: "string list \<Rightarrow> metadata list \<Rightarrow> string list \<Rightarrow> vector_store \<Rightarrow> error + vector_store" where
  "store_add ds ms ids store = Inr (store_insert ds ms ids store)"

text \<open>
  Services for running the code on concrete inputs: the store above, queried for its
  first \<open>k\<close> records; a cache that maps a key to its value and time-to-live; a language
  model with a fixed reply; a serialisation that keeps the answer text. The batch size
  is 2, and successive clock readings are one microsecond apart.
\<close>

type_synonym cache = "(string \<times> string \<times> nat) list"

definition local_services :: "(vector_store, cache) services" where
  "local_services =
     \<lparr>BATCH_SIZE = 2,
      clock = (\<lambda>n. int n),
      collection_add = store_add,
      collection_query = (\<lambda>q k store.
         Inr \<lparr>documents = [map (fst \<circ> snd) (take k store)],
              metadatas = [map (snd \<circ> snd) (take k store)]\<rparr>),
      redis_get = (\<lambda>key c. Inr (map_option fst (map_of c key))),
      redis_set = (\<lambda>key v ttl c. Inr (AList.update key (v, ttl) c)),
      chat_completion = (\<lambda>sys prompt. Inr ''See section 1.1.''),
      json_dumps = answer,
      json_loads = (\<lambda>s. Inr \<lparr>answer = s, sources = []\<rparr>)\<rparr>"

text \<open>The same with a vector store that is down.\<close>

definition failing_services :: "(vector_store, cache) services" where
  "failing_services =
     local_services
       \<lparr>collection_add := (\<lambda>ds ms ids store. Inl (ServiceError ''store unavailable'')),
        collection_query := (\<lambda>q k store. Inl (ServiceError ''store unavailable''))\<rparr>"

text \<open>The same after an idle time: the readings after the first are 61 seconds later.\<close>

definition idle_services :: "(vector_store, cache) services" where
  "idle_services = local_services\<lparr>clock := (\<lambda>n. if n = 0 then 0 else 61000000 + int n)\<rparr>"

text \<open>
  A retriever as \<open>__init__\<close> leaves it, with an empty store and an empty cache:
  \<open>last_process_time\<close> is the first clock reading. And a chatbot with no history.
\<close>

definition new_retriever :: "(vector_store, cache) document_retriever" where
  "new_retriever =
     \<lparr>collection = [], redis = [], batch_queue = [], last_process_time = 0, clock_reads = 1\<rparr>"

definition new_chatbot :: "(vector_store, cache) construction_chatbot" where
  "new_chatbot = \<lparr>retriever = new_retriever, history = []\<rparr>"

text \<open>
  The retriever with one document of two sections queued, and the same after its
  flush with the local services.
\<close>

definition sample_sections :: "doc_section list" where
  "sample_sections =
     [\<lparr>title = ''1.1 GENERAL'', content = ''Scope text.'' @ [NL], page = 1\<rparr>,
      \<lparr>title = ''1.2 DEFINITIONS'', content = ''Def text.'' @ [NL], page = 1\<rparr>]"

definition queued_retriever :: "(vector_store, cache) document_retriever" where
  "queued_retriever =
     new_retriever
       \<lparr>batch_queue := [\<lparr>doc_id = ''doc_a_01234567'', sections = sample_sections, timestamp = 1\<rparr>],
        clock_reads := 3\<rparr>"

definition indexed_retriever :: "(vector_store, cache) document_retriever" where
  "indexed_retriever = snd (process_batch local_services queued_retriever)"

text \<open>
  The flushed retriever with the same document id queued again, its first section
  revised.
\<close>

definition requeued_retriever :: "(vector_store, cache) document_retriever" where
  "requeued_retriever =
     indexed_retriever
       \<lparr>batch_queue :=
          [\<lparr>doc_id = ''doc_a_01234567'',
            sections = [\<lparr>title = ''1.1 GENERAL'', content = ''Revised scope.'' @ [NL], page = 1\<rparr>],
            timestamp = 6\<rparr>]\<rparr>"

text \<open>Two uploads, as many as the batch size of the local services.\<close>

definition sample_uploads :: "(string \<times> string \<times> doc_section list) list" where
  "sample_uploads =
     [(''doc_a'', ''0123456789abcdef'', sample_sections),
      (''doc_b'', ''fedcba9876543210'', sample_sections)]"

section \<open>Properties of the sectioner\<close>

lemma header_nonempty: "is_section_header l \<Longrightarrow> l \<noteq> []"
  by (auto simp: is_section_header_def pat_numbered_sub_def pat_section_def pat_article_def
      pat_numbered_def many1_def lit_def)

lemma foldl_no_header:
  assumes "\<forall>l \<in> set ls. \<not> is_section_header (strip l)"
  shows "foldl (section_step p) (secs, cur) ls =
    (secs, cur\<lparr>content := content cur
        @ concat (map (\<lambda>l. l @ [NL]) (filter (\<lambda>l. l \<noteq> []) (map strip ls)))\<rparr>)"
  using assms
proof (induction ls arbitrary: cur)
  case Nil
  then show ?case by simp
next
  case (Cons l ls)
  then show ?case by (simp add: section_step_def Let_def)
qed

lemma foldl_blank_lines:
  assumes "\<forall>b \<in> set bs. strip b = []"
  shows "foldl (section_step p) st bs = st"
  using assms by (induction bs arbitrary: st) (simp_all add: section_step_def)

lemma step_header:
  "is_section_header (strip h) \<Longrightarrow>
   section_step p (secs, cur) h =
     ((if content cur \<noteq> [] then secs @ [cur] else secs),
      \<lparr>title = strip h, content = [], page = p\<rparr>)"
  by (auto simp: section_step_def Let_def dest: header_nonempty)

lemma step_two_headers:
  assumes "is_section_header (strip h1)" "is_section_header (strip h2)"
  shows "section_step p (section_step p st h1) h2 = section_step p st h2"
  using assms by (cases st) (simp add: step_header)

lemma final_after_header:
  assumes "is_section_header (strip h)"
  shows "final_section (section_step p st h) = final_section st"
  using assms by (cases st) (simp add: step_header final_section_def)

text \<open>
  C1, as stated, fails. On the empty page no line is a header and no section is
  returned; on the page \<open>" a\n\nb"\<close> no line is a header and the one section's content
  is \<open>"a\nb\n"\<close>, which is not the page text: lines are stripped, blank lines are
  skipped, and every kept line is followed by a newline.
\<close>

theorem split_without_headers_counterexample:
  "\<not> list_ex is_section_header (str_split NL [])
   \<and> split_into_sections [] 1 = []
   \<and> \<not> list_ex is_section_header (str_split NL ('' a'' @ [NL, NL] @ ''b''))
   \<and> split_into_sections ('' a'' @ [NL, NL] @ ''b'') 1 =
       [\<lparr>title = [], content = ''a'' @ [NL] @ ''b'' @ [NL], page = 1\<rparr>]
   \<and> ''a'' @ [NL] @ ''b'' @ [NL] \<noteq> '' a'' @ [NL, NL] @ ''b''"
  by code_simp

text \<open>
  C1, amended: when no stripped line of the page is a header, the content of the
  result is the stripped non-blank lines of the page, each followed by a newline;
  the result is the one section with that content, an empty title and the page number
  when there is such a line, and no section when every line is blank.
\<close>

theorem split_without_headers:
  assumes "\<forall>l \<in> set (str_split NL text). \<not> is_section_header (strip l)"
  shows "split_into_sections text page_num =
    (let body = concat (map (\<lambda>l. l @ [NL])
                   (filter (\<lambda>l. l \<noteq> []) (map strip (str_split NL text))))
     in if body = [] then [] else [\<lparr>title = [], content = body, page = page_num\<rparr>])"
  using foldl_no_header [OF assms, of page_num "[]" "\<lparr>title = [], content = [], page = page_num\<rparr>"]
  by (simp add: split_into_sections_def sections_of_lines_def final_section_def Let_def)

theorem split_without_headers_witness:
  "list_all (\<lambda>l. \<not> is_section_header (strip l))
      (str_split NL (''  Scope of work '' @ [NL, NL] @ ''applies.''))
   \<and> split_into_sections (''  Scope of work '' @ [NL, NL] @ ''applies.'') 4 =
      [\<lparr>title = [], content = ''Scope of work'' @ [NL] @ ''applies.'' @ [NL], page = 4\<rparr>]"
proof -
  have h: "\<forall>l \<in> set (str_split NL (''  Scope of work '' @ [NL, NL] @ ''applies.'')).
             \<not> is_section_header (strip l)"
    by code_simp
  have e: "concat (map (\<lambda>l. l @ [NL]) (filter (\<lambda>l. l \<noteq> [])
             (map strip (str_split NL (''  Scope of work '' @ [NL, NL] @ ''applies.'')))))
           = ''Scope of work'' @ [NL] @ ''applies.'' @ [NL]"
    by code_simp
  show ?thesis using h split_without_headers [OF h, of 4] unfolding e
    by (simp add: list_all_iff)
qed

text \<open>
  C7. (1) A header line met while the current section has no content replaces the
  title and emits nothing. (2) Two header lines with only blank lines between them
  give the same sections as the second header alone. (3) At the end of the input the
  current section is appended exactly when its content is not empty, so (4) a header
  as the last line changes nothing.
\<close>

theorem header_collapse_and_final_section:
  "(is_section_header (strip h) \<and> content cur = [] \<longrightarrow>
      section_step p (secs, cur) h = (secs, \<lparr>title = strip h, content = [], page = p\<rparr>))
   \<and> (is_section_header (strip ha) \<and> is_section_header (strip hb)
        \<and> (\<forall>b \<in> set blanks. strip b = []) \<longrightarrow>
      sections_of_lines (ls @ ha # blanks @ hb # rest) p = sections_of_lines (ls @ hb # rest) p)
   \<and> sections_of_lines ls p =
       (case foldl (section_step p) ([], \<lparr>title = [], content = [], page = p\<rparr>) ls of
          (emitted, current_section) \<Rightarrow>
            if content current_section \<noteq> [] then emitted @ [current_section] else emitted)
   \<and> (is_section_header (strip h) \<longrightarrow>
      sections_of_lines (ls @ [h]) p = sections_of_lines ls p)"
proof (intro conjI impI)
  assume "is_section_header (strip h) \<and> content cur = []"
  then show "section_step p (secs, cur) h = (secs, \<lparr>title = strip h, content = [], page = p\<rparr>)"
    by (simp add: step_header)
next
  assume a: "is_section_header (strip ha) \<and> is_section_header (strip hb)
     \<and> (\<forall>b \<in> set blanks. strip b = [])"
  then have "foldl (section_step p) st (ha # blanks @ hb # rest)
      = foldl (section_step p) st (hb # rest)" for st
    by (simp add: foldl_blank_lines step_two_headers)
  then show "sections_of_lines (ls @ ha # blanks @ hb # rest) p
      = sections_of_lines (ls @ hb # rest) p"
    by (simp add: sections_of_lines_def)
next
  show "sections_of_lines ls p =
       (case foldl (section_step p) ([], \<lparr>title = [], content = [], page = p\<rparr>) ls of
          (emitted, current_section) \<Rightarrow>
            if content current_section \<noteq> [] then emitted @ [current_section] else emitted)"
    by (simp add: sections_of_lines_def final_section_def split: prod.splits)
next
  assume "is_section_header (strip h)"
  then show "sections_of_lines (ls @ [h]) p = sections_of_lines ls p"
    by (simp add: sections_of_lines_def final_after_header)
qed

theorem header_collapse_and_final_section_witness:
  "is_section_header (strip ''1.2 DEFINITIONS'')
   \<and> is_section_header (strip ''1.1 GENERAL'')
   \<and> section_step 1 ([], \<lparr>title = ''1.1 GENERAL'', content = [], page = 1\<rparr>) ''1.2 DEFINITIONS''
       = ([], \<lparr>title = strip ''1.2 DEFINITIONS'', content = [], page = 1\<rparr>)
   \<and> sections_of_lines ([''Intro''] @ ''1.1 GENERAL'' # [''  ''] @ ''1.2 DEFINITIONS'' # [''Def text.'']) 1
       = sections_of_lines ([''Intro''] @ ''1.2 DEFINITIONS'' # [''Def text.'']) 1
   \<and> sections_of_lines ([''Intro''] @ [''1.2 DEFINITIONS'']) 1 = sections_of_lines [''Intro''] 1"
proof -
  have a: "is_section_header (strip ''1.2 DEFINITIONS'')" by code_simp
  have b: "is_section_header (strip ''1.1 GENERAL'')" by code_simp
  have c: "\<forall>b \<in> set [''  '']. strip b = []" by code_simp
  have d: "content \<lparr>title = ''1.1 GENERAL'', content = [], page = 1\<rparr> = []" by simp
  note t = header_collapse_and_final_section
    [where h = "''1.2 DEFINITIONS''" and ha = "''1.1 GENERAL''" and hb = "''1.2 DEFINITIONS''"
       and cur = "\<lparr>title = ''1.1 GENERAL'', content = [], page = 1\<rparr>" and secs = "[]"
       and p = 1 and blanks = "[''  '']" and ls = "[''Intro'']" and rest = "[''Def text.'']"]
  from t a b c d show ?thesis by blast
qed

section \<open>The PDF text source at page number 0\<close>

text \<open>
  C6. On a document of two pages, page number 0 is not in 1..2, and \<open>get_page_text\<close>
  returns the text of the last page: \<open>page_number - 1\<close> is the index \<open>-1\<close>, which counts
  from the end. Page number 3 raises the range error.
\<close>

theorem get_page_text_zero:
  "number_of_pages [Inr ''first'', Inr ''last''] = 2
   \<and> get_page_text [Inr ''first'', Inr ''last''] 0 = Inr ''last''
   \<and> get_page_text [Inr ''first'', Inr ''last''] 1 = Inr ''first''
   \<and> get_page_text [Inr ''first'', Inr ''last''] 3
       = Inl (ValueError ''Page number 3 out of range'')"
  by code_simp

section \<open>Properties of the batch flush\<close>

lemma process_batch_empty:
  "batch_queue st = [] \<Longrightarrow> process_batch svc st = (Inr (), st)"
  by (simp add: process_batch_def)

lemma process_batch_ok:
  assumes "batch_queue st \<noteq> []"
    and "recs = batch_records (clock svc) (clock_reads st) (batch_queue st)"
    and "collection_add svc (map fst recs) (map (fst \<circ> snd) recs) (map (snd \<circ> snd) recs)
           (collection st) = Inr v"
  shows "process_batch svc st =
     (Inr (), st\<lparr>collection := v,
                  last_process_time := clock svc (clock_reads st + length recs),
                  clock_reads := Suc (clock_reads st + length recs),
                  batch_queue := []\<rparr>)"
  using assms by (simp add: process_batch_def Let_def)

lemma process_batch_fail:
  assumes "batch_queue st \<noteq> []"
    and "recs = batch_records (clock svc) (clock_reads st) (batch_queue st)"
    and "collection_add svc (map fst recs) (map (fst \<circ> snd) recs) (map (snd \<circ> snd) recs)
           (collection st) = Inl e"
  shows "process_batch svc st = (Inl e, st\<lparr>clock_reads := clock_reads st + length recs\<rparr>)"
  using assms by (simp add: process_batch_def Let_def)

text \<open>
  C3. A flush of a queue that is not empty submits the records \<open>recs\<close> of the whole
  queue in one insert. When the insert succeeds with the store \<open>v\<close>, the flush returns,
  the queue is empty, the last flush time is the clock reading taken after the insert,
  and the store is \<open>v\<close>. When the insert raises \<open>e\<close>, the flush raises \<open>e\<close>, and the
  queue, the last flush time and the store are as before.
\<close>

theorem process_batch_outcome:
  "(batch_queue st \<noteq> []
      \<and> recs = batch_records (clock svc) (clock_reads st) (batch_queue st)
      \<and> collection_add svc (map fst recs) (map (fst \<circ> snd) recs) (map (snd \<circ> snd) recs)
            (collection st) = Inr v \<longrightarrow>
        fst (process_batch svc st) = Inr ()
      \<and> batch_queue (snd (process_batch svc st)) = []
      \<and> last_process_time (snd (process_batch svc st))
           = clock svc (clock_reads st + length recs)
      \<and> collection (snd (process_batch svc st)) = v)
   \<and> (batch_queue st \<noteq> []
      \<and> recs = batch_records (clock svc) (clock_reads st) (batch_queue st)
      \<and> collection_add svc (map fst recs) (map (fst \<circ> snd) recs) (map (snd \<circ> snd) recs)
            (collection st) = Inl e \<longrightarrow>
        fst (process_batch svc st) = Inl e
      \<and> batch_queue (snd (process_batch svc st)) = batch_queue st
      \<and> last_process_time (snd (process_batch svc st)) = last_process_time st
      \<and> collection (snd (process_batch svc st)) = collection st)"
proof (intro conjI impI)
  assume a: "batch_queue st \<noteq> []
      \<and> recs = batch_records (clock svc) (clock_reads st) (batch_queue st)
      \<and> collection_add svc (map fst recs) (map (fst \<circ> snd) recs) (map (snd \<circ> snd) recs)
            (collection st) = Inr v"
  then have q: "batch_queue st \<noteq> []"
    and r: "recs = batch_records (clock svc) (clock_reads st) (batch_queue st)"
    and c: "collection_add svc (map fst recs) (map (fst \<circ> snd) recs) (map (snd \<circ> snd) recs)
            (collection st) = Inr v"
    by blast+
  note p = process_batch_ok [OF q r c]
  show "fst (process_batch svc st) = Inr ()"
    and "batch_queue (snd (process_batch svc st)) = []"
    and "last_process_time (snd (process_batch svc st)) = clock svc (clock_reads st + length recs)"
    and "collection (snd (process_batch svc st)) = v"
    by (simp_all add: p)
next
  assume a: "batch_queue st \<noteq> []
      \<and> recs = batch_records (clock svc) (clock_reads st) (batch_queue st)
      \<and> collection_add svc (map fst recs) (map (fst \<circ> snd) recs) (map (snd \<circ> snd) recs)
            (collection st) = Inl e"
  then have q: "batch_queue st \<noteq> []"
    and r: "recs = batch_records (clock svc) (clock_reads st) (batch_queue st)"
    and c: "collection_add svc (map fst recs) (map (fst \<circ> snd) recs) (map (snd \<circ> snd) recs)
            (collection st) = Inl e"
    by blast+
  note p = process_batch_fail [OF q r c]
  show "fst (process_batch svc st) = Inl e"
    and "batch_queue (snd (process_batch svc st)) = batch_queue st"
    and "last_process_time (snd (process_batch svc st)) = last_process_time st"
    and "collection (snd (process_batch svc st)) = collection st"
    by (simp_all add: p)
qed

theorem process_batch_outcome_witness:
  "fst (process_batch local_services queued_retriever) = Inr ()
   \<and> batch_queue (snd (process_batch local_services queued_retriever)) = []
   \<and> last_process_time (snd (process_batch local_services queued_retriever)) = 5
   \<and> map fst (collection (snd (process_batch local_services queued_retriever)))
       = [''doc_a_01234567_section_0'', ''doc_a_01234567_section_1'']
   \<and> fst (process_batch failing_services queued_retriever)
       = Inl (ServiceError ''store unavailable'')
   \<and> batch_queue (snd (process_batch failing_services queued_retriever))
       = batch_queue queued_retriever
   \<and> last_process_time (snd (process_batch failing_services queued_retriever))
       = last_process_time queued_retriever
   \<and> collection (snd (process_batch failing_services queued_retriever))
       = collection queued_retriever"
proof -
  have q: "batch_queue queued_retriever \<noteq> []" by code_simp
  have ok: "collection_add local_services
     (map fst (batch_records (clock local_services) (clock_reads queued_retriever)
        (batch_queue queued_retriever)))
     (map (fst \<circ> snd) (batch_records (clock local_services) (clock_reads queued_retriever)
        (batch_queue queued_retriever)))
     (map (snd \<circ> snd) (batch_records (clock local_services) (clock_reads queued_retriever)
        (batch_queue queued_retriever)))
     (collection queued_retriever) = Inr (collection indexed_retriever)"
    by code_simp
  have bad: "collection_add failing_services
     (map fst (batch_records (clock failing_services) (clock_reads queued_retriever)
        (batch_queue queued_retriever)))
     (map (fst \<circ> snd) (batch_records (clock failing_services) (clock_reads queued_retriever)
        (batch_queue queued_retriever)))
     (map (snd \<circ> snd) (batch_records (clock failing_services) (clock_reads queued_retriever)
        (batch_queue queued_retriever)))
     (collection queued_retriever) = Inl (ServiceError ''store unavailable'')"
    by code_simp
  have t: "clock local_services (clock_reads queued_retriever
      + length (batch_records (clock local_services) (clock_reads queued_retriever)
          (batch_queue queued_retriever))) = 5"
    by code_simp
  have ids: "map fst (collection indexed_retriever)
      = [''doc_a_01234567_section_0'', ''doc_a_01234567_section_1'']"
    by code_simp
  note good = process_batch_outcome
    [where st = queued_retriever and svc = local_services
       and recs = "batch_records (clock local_services) (clock_reads queued_retriever)
          (batch_queue queued_retriever)"
       and v = "collection indexed_retriever"]
  note fail = process_batch_outcome
    [where st = queued_retriever and svc = failing_services
       and recs = "batch_records (clock failing_services) (clock_reads queued_retriever)
          (batch_queue queued_retriever)"
       and e = "ServiceError ''store unavailable''"]
  from good q ok t ids fail bad show ?thesis by simp
qed

section \<open>Properties of the answer engine\<close>

text \<open>
  C5. On a cache miss (the cache holds nothing, or an empty value, under the key), when
  the vector store returns no section, \<open>query\<close> returns the canned answer with no
  sources, and the retriever, its cache included, is as before: nothing is written.
\<close>

theorem empty_retrieval:
  assumes "redis_get svc (''query:'' @ q) (redis st) = Inr cached"
    and "cached = None \<or> cached = Some []"
    and "collection_query svc q 3 (collection st) = Inr results"
    and "documents results = [] \<or> hd (documents results) = []"
  shows "query svc q ctx st = (Inr nothing_relevant, st)
    \<and> answer nothing_relevant = ''I couldn'' @ [CHR 0x27]
         @ ''t find anything relevant in the docs. Could you try rephrasing?''
    \<and> sources nothing_relevant = []"
  using assms by (auto simp: query_def nothing_relevant_def)

theorem empty_retrieval_witness:
  "redis_get local_services (''query:'' @ ''What is the scope?'') (redis new_retriever) = Inr None
   \<and> collection_query local_services ''What is the scope?'' 3 (collection new_retriever)
       = Inr \<lparr>documents = [[]], metadatas = [[]]\<rparr>
   \<and> query local_services ''What is the scope?'' None new_retriever
       = (Inr nothing_relevant, new_retriever)
   \<and> sources nothing_relevant = []"
proof -
  have g: "redis_get local_services (''query:'' @ ''What is the scope?'') (redis new_retriever)
      = Inr None"
    by code_simp
  have c: "collection_query local_services ''What is the scope?'' 3 (collection new_retriever)
      = Inr \<lparr>documents = [[]], metadatas = [[]]\<rparr>"
    by code_simp
  have z: "documents \<lparr>documents = [[]], metadatas = [[]]\<rparr> = []
      \<or> hd (documents \<lparr>documents = [[]], metadatas = [[]]\<rparr>) = []"
    by simp
  from empty_retrieval [OF g _ c z, of None] g c show ?thesis by simp
qed

text \<open>
  C8. On a cache miss with a retrieval result that is not empty: when \<open>query\<close> returns
  an answer, its sources are the title, page and document id of the retrieved
  metadata, in the order of the vector store, and the cache is the one that results
  from setting the key \<open>"query:" + question\<close> to the serialised answer with a
  time-to-live of 300; nothing else of the retriever changes. And \<open>query\<close> does return
  that answer when the metadata are present, the language model replies and the cache
  accepts the write.
\<close>

theorem answer_sources_and_cache:
  assumes "redis_get svc (''query:'' @ q) (redis st) = Inr cached"
    and "cached = None \<or> cached = Some []"
    and "collection_query svc q 3 (collection st) = Inr results"
    and "documents results \<noteq> []" and "hd (documents results) \<noteq> []"
  shows "(fst (query svc q ctx st) = Inr resp \<longrightarrow>
            metadatas results \<noteq> []
          \<and> sources resp = map (\<lambda>meta. \<lparr>src_title = md_title meta, src_page = md_page meta,
                                         src_doc_id = md_doc_id meta\<rparr>) (hd (metadatas results))
          \<and> redis_set svc (''query:'' @ q) (json_dumps svc resp) 300 (redis st)
              = Inr (redis (snd (query svc q ctx st)))
          \<and> snd (query svc q ctx st) = st\<lparr>redis := redis (snd (query svc q ctx st))\<rparr>)
       \<and> (metadatas results \<noteq> []
          \<and> format_prompt q results ctx = Inr prompt
          \<and> chat_completion svc ''You are a construction document assistant.'' prompt = Inr reply
          \<and> redis_set svc (''query:'' @ q)
               (json_dumps svc
                  \<lparr>answer = reply,
                   sources = map (\<lambda>meta. \<lparr>src_title = md_title meta, src_page = md_page meta,
                                           src_doc_id = md_doc_id meta\<rparr>) (hd (metadatas results))\<rparr>)
               300 (redis st) = Inr c \<longrightarrow>
            query svc q ctx st =
              (Inr \<lparr>answer = reply,
                    sources = map (\<lambda>meta. \<lparr>src_title = md_title meta, src_page = md_page meta,
                                            src_doc_id = md_doc_id meta\<rparr>) (hd (metadatas results))\<rparr>,
               st\<lparr>redis := c\<rparr>))"
  using assms
  by (auto simp: query_def generate_response_def py_index_def hd_conv_nth
      split: sum.splits if_splits)

theorem answer_sources_and_cache_witness:
  "fst (query local_services ''What is the scope?'' None indexed_retriever) =
     Inr \<lparr>answer = ''See section 1.1.'',
          sources = [\<lparr>src_title = ''1.1 GENERAL'', src_page = 1, src_doc_id = ''doc_a_01234567''\<rparr>,
                     \<lparr>src_title = ''1.2 DEFINITIONS'', src_page = 1,
                      src_doc_id = ''doc_a_01234567''\<rparr>]\<rparr>
   \<and> redis_set local_services (''query:'' @ ''What is the scope?'')
        (json_dumps local_services
           \<lparr>answer = ''See section 1.1.'',
            sources = [\<lparr>src_title = ''1.1 GENERAL'', src_page = 1,
                        src_doc_id = ''doc_a_01234567''\<rparr>,
                       \<lparr>src_title = ''1.2 DEFINITIONS'', src_page = 1,
                        src_doc_id = ''doc_a_01234567''\<rparr>]\<rparr>)
        300 (redis indexed_retriever)
       = Inr (redis (snd (query local_services ''What is the scope?'' None indexed_retriever)))
   \<and> redis (snd (query local_services ''What is the scope?'' None indexed_retriever))
       = [(''query:What is the scope?'', ''See section 1.1.'', 300)]
   \<and> query local_services ''What is the scope?'' None indexed_retriever =
       (Inr \<lparr>answer = ''See section 1.1.'',
             sources = map (\<lambda>meta. \<lparr>src_title = md_title meta, src_page = md_page meta,
                                     src_doc_id = md_doc_id meta\<rparr>)
                         [\<lparr>md_doc_id = ''doc_a_01234567'', md_title = ''1.1 GENERAL'',
                           md_page = 1, md_processed_at = 3\<rparr>,
                          \<lparr>md_doc_id = ''doc_a_01234567'', md_title = ''1.2 DEFINITIONS'',
                           md_page = 1, md_processed_at = 4\<rparr>]\<rparr>,
        indexed_retriever\<lparr>redis := [(''query:What is the scope?'', ''See section 1.1.'', 300)]\<rparr>)"
proof -
  let ?results = "\<lparr>documents = [[''Scope text.'' @ [NL], ''Def text.'' @ [NL]]],
             metadatas = [[\<lparr>md_doc_id = ''doc_a_01234567'', md_title = ''1.1 GENERAL'',
                            md_page = 1, md_processed_at = 3\<rparr>,
                           \<lparr>md_doc_id = ''doc_a_01234567'', md_title = ''1.2 DEFINITIONS'',
                            md_page = 1, md_processed_at = 4\<rparr>]]\<rparr>"
  let ?prompt = "''Relevant sections:'' @ [NL, NL] @ ''Section: 1.1 GENERAL (Page 1)'' @ [NL]
      @ ''Content: Scope text.'' @ [NL, NL, NL]
      @ ''Section: 1.2 DEFINITIONS (Page 1)'' @ [NL]
      @ ''Content: Def text.'' @ [NL, NL, NL] @ ''Question: What is the scope?''"
  have m: "metadatas ?results \<noteq> []" by simp
  have hm: "hd (metadatas ?results) =
      [\<lparr>md_doc_id = ''doc_a_01234567'', md_title = ''1.1 GENERAL'',
        md_page = 1, md_processed_at = 3\<rparr>,
       \<lparr>md_doc_id = ''doc_a_01234567'', md_title = ''1.2 DEFINITIONS'',
        md_page = 1, md_processed_at = 4\<rparr>]"
    by simp
  have fp: "format_prompt ''What is the scope?'' ?results None = Inr ?prompt"
    by code_simp
  have cc: "chat_completion local_services ''You are a construction document assistant.'' ?prompt
      = Inr ''See section 1.1.''"
    by (simp add: local_services_def)
  have rs: "redis_set local_services (''query:'' @ ''What is the scope?'')
      (json_dumps local_services
         \<lparr>answer = ''See section 1.1.'',
          sources = map (\<lambda>meta. \<lparr>src_title = md_title meta, src_page = md_page meta,
                                  src_doc_id = md_doc_id meta\<rparr>) (hd (metadatas ?results))\<rparr>)
      300 (redis indexed_retriever)
      = Inr [(''query:What is the scope?'', ''See section 1.1.'', 300)]"
    by code_simp
  have g: "redis_get local_services (''query:'' @ ''What is the scope?'') (redis indexed_retriever)
      = Inr None"
    by code_simp
  have c: "collection_query local_services ''What is the scope?'' 3 (collection indexed_retriever)
      = Inr \<lparr>documents = [[''Scope text.'' @ [NL], ''Def text.'' @ [NL]]],
             metadatas = [[\<lparr>md_doc_id = ''doc_a_01234567'', md_title = ''1.1 GENERAL'',
                            md_page = 1, md_processed_at = 3\<rparr>,
                           \<lparr>md_doc_id = ''doc_a_01234567'', md_title = ''1.2 DEFINITIONS'',
                            md_page = 1, md_processed_at = 4\<rparr>]]\<rparr>"
    by code_simp
  have f: "fst (query local_services ''What is the scope?'' None indexed_retriever) =
     Inr \<lparr>answer = ''See section 1.1.'',
          sources = [\<lparr>src_title = ''1.1 GENERAL'', src_page = 1, src_doc_id = ''doc_a_01234567''\<rparr>,
                     \<lparr>src_title = ''1.2 DEFINITIONS'', src_page = 1,
                      src_doc_id = ''doc_a_01234567''\<rparr>]\<rparr>"
    by code_simp
  have k: "redis (snd (query local_services ''What is the scope?'' None indexed_retriever))
       = [(''query:What is the scope?'', ''See section 1.1.'', 300)]"
    by code_simp
  note t = answer_sources_and_cache [OF g _ c, where ctx = None and resp =
     "\<lparr>answer = ''See section 1.1.'',
          sources = [\<lparr>src_title = ''1.1 GENERAL'', src_page = 1, src_doc_id = ''doc_a_01234567''\<rparr>,
                     \<lparr>src_title = ''1.2 DEFINITIONS'', src_page = 1,
                      src_doc_id = ''doc_a_01234567''\<rparr>]\<rparr>"]
  note u = answer_sources_and_cache [OF g _ c, where ctx = None and prompt = ?prompt
     and reply = "''See section 1.1.''"
     and c = "[(''query:What is the scope?'', ''See section 1.1.'', 300)]"]
  from u m fp cc rs have w: "query local_services ''What is the scope?'' None indexed_retriever =
       (Inr \<lparr>answer = ''See section 1.1.'',
             sources = map (\<lambda>meta. \<lparr>src_title = md_title meta, src_page = md_page meta,
                                     src_doc_id = md_doc_id meta\<rparr>) (hd (metadatas ?results))\<rparr>,
        indexed_retriever\<lparr>redis := [(''query:What is the scope?'', ''See section 1.1.'', 300)]\<rparr>)"
    by simp
  from t f k w [unfolded hm] show ?thesis by simp
qed

section \<open>Properties of the conversation window\<close>

lemma py_last_py_last: "py_last k (py_last k xs @ ys) = py_last k (xs @ ys)"
proof (cases "length xs \<le> k")
  case True
  then show ?thesis by (simp add: py_last_def)
next
  case False
  then have "length ys + (length xs - k) = length xs + length ys - k" by arith
  with False show ?thesis by (simp add: py_last_def)
qed

lemma update_history_last:
  assumes "length hist \<le> 5"
  shows "update_history hist entry = py_last 5 (hist @ [entry])"
proof (cases "length hist = 5")
  case True
  then have "py_last 5 (hist @ [entry]) = drop (Suc 0) (hist @ [entry])"
    by (simp add: py_last_def)
  also have "\<dots> = tl (hist @ [entry])" by (simp only: drop_Suc drop_0)
  finally show ?thesis using True by (simp add: update_history_def Let_def)
next
  case False
  with assms show ?thesis by (simp add: update_history_def py_last_def Let_def)
qed

lemma length_py_last: "length (py_last k xs) \<le> k"
  by (simp add: py_last_def)

lemma map_py_last: "map f (py_last k xs) = py_last k (map f xs)"
  by (simp add: py_last_def drop_map)

lemma chat_success:
  assumes "chat svc message self = (Inr resp, self')"
  shows "\<exists>ts. history self' = update_history (history self)
            \<lparr>question = message, h_answer = answer resp, h_timestamp = ts\<rparr>"
  using assms by (auto simp: chat_def split: prod.splits sum.splits)

lemma chat_all_history:
  assumes "chat_all svc msgs self = (Inr resps, self')" and "length (history self) \<le> 5"
  shows "length (history self') \<le> 5
    \<and> length resps = length msgs
    \<and> map question (history self') = py_last 5 (map question (history self) @ msgs)
    \<and> map h_answer (history self') = py_last 5 (map h_answer (history self) @ map answer resps)"
  using assms
proof (induction msgs arbitrary: self resps)
  case Nil
  then show ?case by (auto simp: py_last_def)
next
  case (Cons m ms)
  from Cons.prems(1) obtain r rs mid where
    c: "chat svc m self = (Inr r, mid)" and
    ca: "chat_all svc ms mid = (Inr rs, self')" and
    rs: "resps = r # rs"
    by (auto split: prod.splits sum.splits)
  from chat_success [OF c] obtain ts where
    h: "history mid = update_history (history self)
          \<lparr>question = m, h_answer = answer r, h_timestamp = ts\<rparr>"
    by blast
  with Cons.prems(2) have hl:
    "history mid = py_last 5 (history self
        @ [\<lparr>question = m, h_answer = answer r, h_timestamp = ts\<rparr>])"
    by (simp add: update_history_last)
  then have len: "length (history mid) \<le> 5" by (simp add: length_py_last)
  note ih = Cons.IH [OF ca len]
  have q: "map question (history mid) = py_last 5 (map question (history self) @ [m])"
    by (simp add: hl map_py_last)
  have a: "map h_answer (history mid) = py_last 5 (map h_answer (history self) @ [answer r])"
    by (simp add: hl map_py_last)
  show ?case using ih rs by (simp add: q a py_last_py_last)
qed

text \<open>
  C9. (1) A chat turn that returns appends one entry, with the message and the answer,
  by \<open>update_history\<close>. (2) On a history of at most 5 entries \<open>update_history\<close> keeps the
  last 5 of the extended history, so the oldest entry goes first and the history never
  exceeds 5. (3) After any number of successful turns the history holds the last 5
  questions and answers, and (4) after 7 turns from an empty history the last 5 of the
  7. (5) The rendered context is the preamble line and the \<open>Q:\<close>/\<open>A:\<close> lines of the
  last 2 entries, whatever precedes them, or of the only entry. (6) \<open>chat\<close> passes no
  context to \<open>query\<close> when the history is empty, and the rendered context otherwise.
\<close>

theorem conversation_window:
  "(fst (chat svc message self) = Inr resp \<longrightarrow>
      (\<exists>ts. history (snd (chat svc message self)) =
         update_history (history self)
           \<lparr>question = message, h_answer = answer resp, h_timestamp = ts\<rparr>))
   \<and> (length hist \<le> 5 \<longrightarrow>
        update_history hist entry = py_last 5 (hist @ [entry])
      \<and> length (update_history hist entry) \<le> 5)
   \<and> (fst (chat_all svc msgs self) = Inr resps \<and> length (history self) \<le> 5 \<longrightarrow>
        length (history (snd (chat_all svc msgs self))) \<le> 5
      \<and> length resps = length msgs
      \<and> map question (history (snd (chat_all svc msgs self)))
          = py_last 5 (map question (history self) @ msgs)
      \<and> map h_answer (history (snd (chat_all svc msgs self)))
          = py_last 5 (map h_answer (history self) @ map answer resps))
   \<and> (fst (chat_all svc msgs self) = Inr resps \<and> history self = [] \<and> length msgs = 7 \<longrightarrow>
        map question (history (snd (chat_all svc msgs self))) = drop 2 msgs
      \<and> map h_answer (history (snd (chat_all svc msgs self))) = drop 2 (map answer resps)
      \<and> length (history (snd (chat_all svc msgs self))) = 5)
   \<and> get_context (front @ [ea, eb]) =
        ''Recent conversation:'' @ [NL]
        @ ''Q: '' @ question ea @ [NL] @ ''A: '' @ h_answer ea @ [NL, NL]
        @ ''Q: '' @ question eb @ [NL] @ ''A: '' @ h_answer eb @ [NL]
   \<and> get_context [ea] =
        ''Recent conversation:'' @ [NL] @ ''Q: '' @ question ea @ [NL] @ ''A: '' @ h_answer ea @ [NL]
   \<and> fst (chat svc message self) =
        fst (query svc message
               (if history self = [] then None else Some (get_context (history self)))
               (retriever self))"
proof (intro conjI impI)
  assume "fst (chat svc message self) = Inr resp"
  then have "chat svc message self = (Inr resp, snd (chat svc message self))"
    by (metis prod.collapse)
  then show "\<exists>ts. history (snd (chat svc message self)) =
         update_history (history self)
           \<lparr>question = message, h_answer = answer resp, h_timestamp = ts\<rparr>"
    by (rule chat_success)
next
  assume "length hist \<le> 5"
  then show "update_history hist entry = py_last 5 (hist @ [entry])"
    by (rule update_history_last)
next
  assume "length hist \<le> 5"
  then show "length (update_history hist entry) \<le> 5"
    by (simp add: update_history_last length_py_last)
next
  assume a: "fst (chat_all svc msgs self) = Inr resps \<and> length (history self) \<le> 5"
  then have "chat_all svc msgs self = (Inr resps, snd (chat_all svc msgs self))"
    by (metis prod.collapse)
  from chat_all_history [OF this] a
  show "length (history (snd (chat_all svc msgs self))) \<le> 5"
    and "length resps = length msgs"
    and "map question (history (snd (chat_all svc msgs self)))
          = py_last 5 (map question (history self) @ msgs)"
    and "map h_answer (history (snd (chat_all svc msgs self)))
          = py_last 5 (map h_answer (history self) @ map answer resps)"
    by blast+
next
  assume a: "fst (chat_all svc msgs self) = Inr resps \<and> history self = [] \<and> length msgs = 7"
  then have "chat_all svc msgs self = (Inr resps, snd (chat_all svc msgs self))"
    by (metis prod.collapse)
  from chat_all_history [OF this] a
  have l: "length resps = length msgs"
    and q: "map question (history (snd (chat_all svc msgs self))) = py_last 5 msgs"
    and r: "map h_answer (history (snd (chat_all svc msgs self))) = py_last 5 (map answer resps)"
    by simp_all
  from q a show "map question (history (snd (chat_all svc msgs self))) = drop 2 msgs"
    by (simp add: py_last_def)
  from r l a show "map h_answer (history (snd (chat_all svc msgs self))) = drop 2 (map answer resps)"
    by (simp add: py_last_def)
  from q a have "length (map question (history (snd (chat_all svc msgs self)))) = 5"
    by (simp add: py_last_def)
  then show "length (history (snd (chat_all svc msgs self))) = 5"
    by simp
next
  show "get_context (front @ [ea, eb]) =
        ''Recent conversation:'' @ [NL]
        @ ''Q: '' @ question ea @ [NL] @ ''A: '' @ h_answer ea @ [NL, NL]
        @ ''Q: '' @ question eb @ [NL] @ ''A: '' @ h_answer eb @ [NL]"
    by (simp add: get_context_def py_last_def)
next
  show "get_context [ea] =
        ''Recent conversation:'' @ [NL] @ ''Q: '' @ question ea @ [NL] @ ''A: '' @ h_answer ea @ [NL]"
    by (simp add: get_context_def py_last_def)
next
  show "fst (chat svc message self) =
        fst (query svc message
               (if history self = [] then None else Some (get_context (history self)))
               (retriever self))"
    by (auto simp: chat_def split: prod.splits sum.splits)
qed

theorem conversation_window_witness:
  "fst (chat_all local_services [''q1'', ''q2'', ''q3'', ''q4'', ''q5'', ''q6'', ''q7''] new_chatbot)
     = Inr (replicate 7 nothing_relevant)
   \<and> history new_chatbot = []
   \<and> map question (history (snd (chat_all local_services
         [''q1'', ''q2'', ''q3'', ''q4'', ''q5'', ''q6'', ''q7''] new_chatbot)))
       = [''q3'', ''q4'', ''q5'', ''q6'', ''q7'']
   \<and> length (history (snd (chat_all local_services
         [''q1'', ''q2'', ''q3'', ''q4'', ''q5'', ''q6'', ''q7''] new_chatbot))) = 5
   \<and> fst (chat local_services ''q1'' new_chatbot) = Inr nothing_relevant
   \<and> (\<exists>ts. history (snd (chat local_services ''q1'' new_chatbot)) =
         update_history (history new_chatbot)
           \<lparr>question = ''q1'', h_answer = answer nothing_relevant, h_timestamp = ts\<rparr>)
   \<and> length (replicate 7 nothing_relevant)
       = length [''q1'', ''q2'', ''q3'', ''q4'', ''q5'', ''q6'', ''q7'']
   \<and> length (update_history [] \<lparr>question = ''q1'', h_answer = ''a1'', h_timestamp = 1\<rparr>) \<le> 5"
proof -
  have a: "fst (chat_all local_services [''q1'', ''q2'', ''q3'', ''q4'', ''q5'', ''q6'', ''q7'']
      new_chatbot) = Inr (replicate 7 nothing_relevant)"
    by code_simp
  have b: "history new_chatbot = []" by code_simp
  have c: "fst (chat local_services ''q1'' new_chatbot) = Inr nothing_relevant" by code_simp
  have l: "length [''q1'', ''q2'', ''q3'', ''q4'', ''q5'', ''q6'', ''q7''] = 7" by simp
  have z: "length ([] :: conversation_entry list) \<le> 5" by simp
  have d: "drop 2 [''q1'', ''q2'', ''q3'', ''q4'', ''q5'', ''q6'', ''q7'']
      = [''q3'', ''q4'', ''q5'', ''q6'', ''q7'']"
    by simp
  note t = conversation_window
    [where svc = local_services and self = new_chatbot
       and msgs = "[''q1'', ''q2'', ''q3'', ''q4'', ''q5'', ''q6'', ''q7'']"
       and resps = "replicate 7 nothing_relevant" and message = "''q1''"
       and resp = nothing_relevant and hist = "[]"
       and entry = "\<lparr>question = ''q1'', h_answer = ''a1'', h_timestamp = 1\<rparr>"]
  from t a b l have k: "map question (history (snd (chat_all local_services
         [''q1'', ''q2'', ''q3'', ''q4'', ''q5'', ''q6'', ''q7''] new_chatbot)))
       = drop 2 [''q1'', ''q2'', ''q3'', ''q4'', ''q5'', ''q6'', ''q7'']"
    by blast
  from t a b l have n: "length (history (snd (chat_all local_services
         [''q1'', ''q2'', ''q3'', ''q4'', ''q5'', ''q6'', ''q7''] new_chatbot))) = 5"
    by blast
  from t z have u: "length (update_history [] \<lparr>question = ''q1'', h_answer = ''a1'',
      h_timestamp = 1\<rparr>) \<le> 5"
    by blast
  from t c have e: "\<exists>ts. history (snd (chat local_services ''q1'' new_chatbot)) =
         update_history (history new_chatbot)
           \<lparr>question = ''q1'', h_answer = answer nothing_relevant, h_timestamp = ts\<rparr>"
    by blast
  have z5: "length (history new_chatbot) \<le> 5" by code_simp
  from t a z5 have r: "length (replicate 7 nothing_relevant)
       = length [''q1'', ''q2'', ''q3'', ''q4'', ''q5'', ''q6'', ''q7'']"
    by blast
  from a b c k [unfolded d] n u e r show ?thesis by blast
qed

text \<open>
  C10. When \<open>query\<close> raises during a chat turn, \<open>chat\<close> raises the same exception and
  the history is as before the turn.
\<close>

theorem chat_query_raises:
  "query svc message (if history self \<noteq> [] then Some (get_context (history self)) else None)
       (retriever self) = (Inl e, r) \<Longrightarrow>
   fst (chat svc message self) = Inl e \<and> history (snd (chat svc message self)) = history self"
  by (simp add: chat_def)

theorem chat_query_raises_witness:
  "query failing_services ''What is the scope?''
       (if history (new_chatbot\<lparr>history := [\<lparr>question = ''q0'', h_answer = ''a0'', h_timestamp = 0\<rparr>]\<rparr>) \<noteq> []
        then Some (get_context (history (new_chatbot\<lparr>history := [\<lparr>question = ''q0'', h_answer = ''a0'', h_timestamp = 0\<rparr>]\<rparr>)))
        else None)
       (retriever (new_chatbot\<lparr>history := [\<lparr>question = ''q0'', h_answer = ''a0'', h_timestamp = 0\<rparr>]\<rparr>))
     = (Inl (ServiceError ''store unavailable''), new_retriever)
   \<and> fst (chat failing_services ''What is the scope?''
        (new_chatbot\<lparr>history := [\<lparr>question = ''q0'', h_answer = ''a0'', h_timestamp = 0\<rparr>]\<rparr>))
       = Inl (ServiceError ''store unavailable'')
   \<and> history (snd (chat failing_services ''What is the scope?''
        (new_chatbot\<lparr>history := [\<lparr>question = ''q0'', h_answer = ''a0'', h_timestamp = 0\<rparr>]\<rparr>)))
       = [\<lparr>question = ''q0'', h_answer = ''a0'', h_timestamp = 0\<rparr>]"
proof -
  have q: "query failing_services ''What is the scope?''
       (if history (new_chatbot\<lparr>history := [\<lparr>question = ''q0'', h_answer = ''a0'', h_timestamp = 0\<rparr>]\<rparr>) \<noteq> []
        then Some (get_context (history (new_chatbot\<lparr>history := [\<lparr>question = ''q0'', h_answer = ''a0'', h_timestamp = 0\<rparr>]\<rparr>)))
        else None)
       (retriever (new_chatbot\<lparr>history := [\<lparr>question = ''q0'', h_answer = ''a0'', h_timestamp = 0\<rparr>]\<rparr>))
     = (Inl (ServiceError ''store unavailable''), new_retriever)"
    by code_simp
  have h: "history (new_chatbot\<lparr>history := [\<lparr>question = ''q0'', h_answer = ''a0'', h_timestamp = 0\<rparr>]\<rparr>)
      = [\<lparr>question = ''q0'', h_answer = ''a0'', h_timestamp = 0\<rparr>]"
    by simp
  from chat_query_raises [OF q] q h show ?thesis by simp
qed

section \<open>Properties of the indexed record ids\<close>

lemma str_nat_small: "n < 10 \<Longrightarrow> str_nat n = [char_of (48 + n)]"
  by (subst str_nat.simps) simp

lemma str_nat_large:
  "\<not> n < 10 \<Longrightarrow> str_nat n = str_nat (n div 10) @ [char_of (48 + n mod 10)]"
  by (subst str_nat.simps) simp

lemma str_nat_nonempty: "str_nat n \<noteq> []"
  by (cases "n < 10") (simp_all add: str_nat_small str_nat_large)

lemma digit_char: "k < 10 \<Longrightarrow> isdigit (char_of (48 + (k::nat)))"
  by (simp add: isdigit_def)

lemma str_nat_digits: "\<forall>c \<in> set (str_nat n). isdigit c"
proof (induction n rule: str_nat.induct)
  case (1 n)
  show ?case
  proof (cases "n < 10")
    case True
    then show ?thesis by (simp add: str_nat_small digit_char)
  next
    case False
    with "1" show ?thesis by (simp add: str_nat_large digit_char)
  qed
qed

lemma digit_char_inj:
  "a < 10 \<Longrightarrow> b < 10 \<Longrightarrow> char_of (48 + a) = char_of (48 + b) \<Longrightarrow> a = (b::nat)"
  by simp

lemma str_nat_inj: "str_nat n = str_nat m \<Longrightarrow> n = m"
proof (induction n arbitrary: m rule: str_nat.induct)
  case (1 n)
  show ?case
  proof (cases "n < 10")
    case n: True
    show ?thesis
    proof (cases "m < 10")
      case True
      with n "1.prems" show ?thesis
        by (simp add: str_nat_small)
    next
      case False
      with n "1.prems" str_nat_nonempty [of "m div 10"] show ?thesis
        by (simp add: str_nat_small str_nat_large)
    qed
  next
    case n: False
    show ?thesis
    proof (cases "m < 10")
      case True
      with n "1.prems" str_nat_nonempty [of "n div 10"] show ?thesis
        by (simp add: str_nat_small str_nat_large)
    next
      case False
      with n "1.prems" have "str_nat (n div 10) = str_nat (m div 10)"
        and c: "char_of (48 + n mod 10) = char_of (48 + m mod 10)"
        by (simp_all add: str_nat_large)
      with "1.IH" n have d: "n div 10 = m div 10" by simp
      from c have "n mod 10 = m mod 10" by (intro digit_char_inj) simp_all
      with d show ?thesis by (metis div_mult_mod_eq)
    qed
  qed
qed

text \<open>The id determines the document id and the index: the index is its digits at the end.\<close>

lemma section_id_inj:
  assumes "da @ ''_section_'' @ str_nat i = db @ ''_section_'' @ str_nat j"
  shows "da = db \<and> i = j"
proof -
  have t: "takeWhile isdigit (rev (d @ ''_section_'' @ str_nat k)) = rev (str_nat k)" for d k
    using str_nat_digits [of k] by (simp add: takeWhile_append isdigit_def)
  from assms have "rev (str_nat i) = rev (str_nat j)"
    by (metis t)
  then have ij: "i = j" by (simp add: str_nat_inj)
  with assms show ?thesis by simp
qed

lemma section_records_ids:
  "map (snd \<circ> snd) (section_records clk d idx n ss) =
     map (\<lambda>i. d @ ''_section_'' @ str_nat i) [idx..<idx + length ss]"
proof (induction ss arbitrary: idx n)
  case Nil
  then show ?case by simp
next
  case (Cons s ss)
  have "[idx..<idx + length (s # ss)] = idx # [Suc idx..<Suc idx + length ss]"
    by (subst upt_conv_Cons) simp_all
  with Cons show ?case by simp
qed

lemma batch_records_ids:
  "map (snd \<circ> snd) (batch_records clk n queue) =
     concat (map (\<lambda>item. map (\<lambda>idx. doc_id item @ ''_section_'' @ str_nat idx)
                            [0..<length (sections item)]) queue)"
  by (induction queue arbitrary: n) (simp_all add: section_records_ids)

lemma section_records_member:
  "i < length ss \<Longrightarrow>
   \<exists>t. (content (ss ! i),
        \<lparr>md_doc_id = d, md_title = title (ss ! i), md_page = page (ss ! i), md_processed_at = t\<rparr>,
        d @ ''_section_'' @ str_nat (idx + i)) \<in> set (section_records clk d idx n ss)"
proof (induction ss arbitrary: idx n i)
  case Nil
  then show ?case by simp
next
  case (Cons s ss)
  show ?case
  proof (cases i)
    case 0
    then show ?thesis by auto
  next
    case (Suc k)
    with Cons.prems have "k < length ss" by simp
    from Cons.IH [OF this, of "Suc idx" "Suc n"] Suc show ?thesis by auto
  qed
qed

lemma batch_records_member:
  assumes "item \<in> set queue" and "idx < length (sections item)"
  shows "\<exists>t. (content (sections item ! idx),
        \<lparr>md_doc_id = doc_id item, md_title = title (sections item ! idx),
         md_page = page (sections item ! idx), md_processed_at = t\<rparr>,
        doc_id item @ ''_section_'' @ str_nat idx) \<in> set (batch_records clk n queue)"
  using assms
proof (induction queue arbitrary: n)
  case Nil
  then show ?case by simp
next
  case (Cons a queue)
  show ?case
  proof (cases "item = a")
    case True
    with section_records_member [OF Cons.prems(2), of "doc_id item" 0 clk n]
    show ?thesis by auto
  next
    case False
    with Cons.prems have "item \<in> set queue" by simp
    from Cons.IH [OF this Cons.prems(2), of "n + length (sections a)"]
    show ?thesis by auto
  qed
qed

lemma batch_ids_distinct:
  assumes "distinct (map doc_id queue)"
  shows "distinct (map (snd \<circ> snd) (batch_records clk n queue))"
proof -
  let ?ids = "\<lambda>item. map (\<lambda>idx. doc_id item @ ''_section_'' @ str_nat idx)
                        [0..<length (sections item)]"
  have one: "distinct (?ids item)" for item
    by (auto simp: distinct_map inj_on_def dest: str_nat_inj)
  from assms have "distinct (concat (map ?ids queue))"
  proof (induction queue)
    case Nil
    then show ?case by simp
  next
    case (Cons a queue)
    have "set (?ids a) \<inter> set (concat (map ?ids queue)) = {}"
    proof (rule ccontr)
      assume "set (?ids a) \<inter> set (concat (map ?ids queue)) \<noteq> {}"
      then obtain i b j where "b \<in> set queue"
        and "doc_id a @ ''_section_'' @ str_nat i = doc_id b @ ''_section_'' @ str_nat j"
        by auto
      then have "doc_id a \<in> doc_id ` set queue"
        using section_id_inj by (metis imageI)
      with Cons.prems show False by simp
    qed
    with Cons one [of a] show ?case by simp
  qed
  then show ?thesis by (simp add: batch_records_ids)
qed

lemma store_insert_keys:
  "fst ` set (store_insert (map fst recs) (map (fst \<circ> snd) recs) (map (snd \<circ> snd) recs) store)
     = fst ` set store \<union> (snd \<circ> snd) ` set recs"
  by (induction recs arbitrary: store) (auto simp: AList.dom_update)

lemma store_insert_distinct:
  "distinct (map fst store) \<Longrightarrow>
   distinct (map fst
     (store_insert (map fst recs) (map (fst \<circ> snd) recs) (map (snd \<circ> snd) recs) store))"
  by (induction recs arbitrary: store) (simp_all add: AList.distinct_update)

lemma store_insert_other:
  "k \<notin> (snd \<circ> snd) ` set recs \<Longrightarrow>
   map_of (store_insert (map fst recs) (map (fst \<circ> snd) recs) (map (snd \<circ> snd) recs) store) k
     = map_of store k"
  by (induction recs arbitrary: store) (auto simp: AList.update_conv')

lemma store_insert_lookup:
  assumes "distinct (map (snd \<circ> snd) recs)" and "(d, m, k) \<in> set recs"
  shows "map_of (store_insert (map fst recs) (map (fst \<circ> snd) recs) (map (snd \<circ> snd) recs) store) k
     = Some (d, m)"
  using assms
proof (induction recs arbitrary: store)
  case Nil
  then show ?case by simp
next
  case (Cons r recs)
  show ?case
  proof (cases "(d, m, k) \<in> set recs")
    case True
    with Cons show ?thesis by simp
  next
    case False
    with Cons.prems have r: "r = (d, m, k)" by auto
    from Cons.prems(1) have "(snd \<circ> snd) r \<notin> (snd \<circ> snd) ` set recs" by simp
    with r have "k \<notin> (snd \<circ> snd) ` set recs" by simp
    then have "map_of (store_insert (map fst recs) (map (fst \<circ> snd) recs)
        (map (snd \<circ> snd) recs) (AList.update k (d, m) store)) k
        = map_of (AList.update k (d, m) store) k"
      by (rule store_insert_other)
    also have "\<dots> = Some (d, m)" by (simp add: AList.update_conv')
    finally show ?thesis by (simp add: r comp_def)
  qed
qed

lemma process_batch_store:
  assumes "collection_add svc = store_add"
  shows "collection (snd (process_batch svc st)) =
     store_insert
       (map fst (batch_records (clock svc) (clock_reads st) (batch_queue st)))
       (map (fst \<circ> snd) (batch_records (clock svc) (clock_reads st) (batch_queue st)))
       (map (snd \<circ> snd) (batch_records (clock svc) (clock_reads st) (batch_queue st)))
       (collection st)"
  using assms by (cases "batch_queue st = []") (simp_all add: process_batch_def store_add_def Let_def)

text \<open>
  C2. (1) The ids that a flush submits are, entry by entry and section by section,
  \<open>doc_id + "_section_" + str(index)\<close>. (2) Two such ids are equal exactly when the
  document ids and the indices are. With the vector store that keys its records by id:
  (3) a flush adds to the ids of the store the ids it submits and no other; (4) it
  keeps the ids of the store distinct, so no record is duplicated; (5) for queued
  entries with distinct document ids, after the flush the store holds under the id of
  a section that section's content, title and page, whatever it held under the id
  before.
\<close>

theorem indexed_record_identity:
  "map (snd \<circ> snd) (batch_records clk n queue) =
     concat (map (\<lambda>item. map (\<lambda>idx. doc_id item @ ''_section_'' @ str_nat idx)
                            [0..<length (sections item)]) queue)
   \<and> ((da @ ''_section_'' @ str_nat i = db @ ''_section_'' @ str_nat j) = (da = db \<and> i = j))
   \<and> (collection_add svc = store_add \<longrightarrow>
        fst ` set (collection (snd (process_batch svc st))) =
          fst ` set (collection st)
          \<union> set (map (snd \<circ> snd)
                 (batch_records (clock svc) (clock_reads st) (batch_queue st))))
   \<and> (collection_add svc = store_add \<and> distinct (map fst (collection st)) \<longrightarrow>
        distinct (map fst (collection (snd (process_batch svc st)))))
   \<and> (collection_add svc = store_add \<and> distinct (map doc_id (batch_queue st))
        \<and> item \<in> set (batch_queue st) \<and> idx < length (sections item) \<longrightarrow>
        (\<exists>t. map_of (collection (snd (process_batch svc st)))
                (doc_id item @ ''_section_'' @ str_nat idx) =
              Some (content (sections item ! idx),
                    \<lparr>md_doc_id = doc_id item, md_title = title (sections item ! idx),
                     md_page = page (sections item ! idx), md_processed_at = t\<rparr>)))"
proof (intro conjI impI)
  show "map (snd \<circ> snd) (batch_records clk n queue) =
     concat (map (\<lambda>item. map (\<lambda>idx. doc_id item @ ''_section_'' @ str_nat idx)
                            [0..<length (sections item)]) queue)"
    by (rule batch_records_ids)
next
  show "(da @ ''_section_'' @ str_nat i = db @ ''_section_'' @ str_nat j) = (da = db \<and> i = j)"
    using section_id_inj by blast
next
  assume "collection_add svc = store_add"
  then show "fst ` set (collection (snd (process_batch svc st))) =
          fst ` set (collection st)
          \<union> set (map (snd \<circ> snd)
                 (batch_records (clock svc) (clock_reads st) (batch_queue st)))"
    by (simp only: process_batch_store store_insert_keys set_map)
next
  assume "collection_add svc = store_add \<and> distinct (map fst (collection st))"
  then show "distinct (map fst (collection (snd (process_batch svc st))))"
    by (simp only: process_batch_store store_insert_distinct)
next
  assume a: "collection_add svc = store_add \<and> distinct (map doc_id (batch_queue st))
        \<and> item \<in> set (batch_queue st) \<and> idx < length (sections item)"
  then have d: "distinct (map (snd \<circ> snd)
      (batch_records (clock svc) (clock_reads st) (batch_queue st)))"
    by (simp only: batch_ids_distinct)
  from a batch_records_member [of item "batch_queue st" idx "clock svc" "clock_reads st"]
  obtain t where "(content (sections item ! idx),
        \<lparr>md_doc_id = doc_id item, md_title = title (sections item ! idx),
         md_page = page (sections item ! idx), md_processed_at = t\<rparr>,
        doc_id item @ ''_section_'' @ str_nat idx)
      \<in> set (batch_records (clock svc) (clock_reads st) (batch_queue st))"
    by blast
  from store_insert_lookup [OF d this] a
  have "map_of (collection (snd (process_batch svc st)))
                (doc_id item @ ''_section_'' @ str_nat idx) =
              Some (content (sections item ! idx),
                    \<lparr>md_doc_id = doc_id item, md_title = title (sections item ! idx),
                     md_page = page (sections item ! idx), md_processed_at = t\<rparr>)"
    by (simp only: process_batch_store)
  then show "\<exists>t. map_of (collection (snd (process_batch svc st)))
                (doc_id item @ ''_section_'' @ str_nat idx) =
              Some (content (sections item ! idx),
                    \<lparr>md_doc_id = doc_id item, md_title = title (sections item ! idx),
                     md_page = page (sections item ! idx), md_processed_at = t\<rparr>)"
    by blast
qed

theorem indexed_record_identity_witness:
  "collection_add local_services = store_add
   \<and> map fst (collection requeued_retriever)
       = [''doc_a_01234567_section_0'', ''doc_a_01234567_section_1'']
   \<and> map_option fst (map_of (collection requeued_retriever) ''doc_a_01234567_section_0'')
       = Some (''Scope text.'' @ [NL])
   \<and> map (snd \<circ> snd) (batch_records (clock local_services) (clock_reads requeued_retriever)
         (batch_queue requeued_retriever)) = [''doc_a_01234567_section_0'']
   \<and> map fst (collection (snd (process_batch local_services requeued_retriever)))
       = [''doc_a_01234567_section_0'', ''doc_a_01234567_section_1'']
   \<and> distinct (map fst (collection (snd (process_batch local_services requeued_retriever))))
   \<and> map_option fst (map_of (collection (snd (process_batch local_services requeued_retriever)))
         (''doc_a_01234567'' @ ''_section_'' @ str_nat 0))
       = Some (''Revised scope.'' @ [NL])"
proof -
  let ?item = "\<lparr>doc_id = ''doc_a_01234567'',
            sections = [\<lparr>title = ''1.1 GENERAL'', content = ''Revised scope.'' @ [NL], page = 1\<rparr>],
            timestamp = 6\<rparr>"
  have s: "collection_add local_services = store_add"
    by (simp add: local_services_def)
  have k: "map fst (collection requeued_retriever)
       = [''doc_a_01234567_section_0'', ''doc_a_01234567_section_1'']"
    by code_simp
  have o: "map_option fst (map_of (collection requeued_retriever) ''doc_a_01234567_section_0'')
       = Some (''Scope text.'' @ [NL])"
    by code_simp
  have b: "map (snd \<circ> snd) (batch_records (clock local_services) (clock_reads requeued_retriever)
         (batch_queue requeued_retriever)) = [''doc_a_01234567_section_0'']"
    by code_simp
  have a: "map fst (collection (snd (process_batch local_services requeued_retriever)))
       = [''doc_a_01234567_section_0'', ''doc_a_01234567_section_1'']"
    by code_simp
  have q: "batch_queue requeued_retriever = [?item]"
    by (simp add: requeued_retriever_def)
  have d0: "distinct (map fst (collection requeued_retriever))"
    unfolding k by simp
  have d1: "distinct (map doc_id (batch_queue requeued_retriever))"
    unfolding q by simp
  have m: "?item \<in> set (batch_queue requeued_retriever)"
    unfolding q by simp
  have l: "0 < length (sections ?item)" by simp
  note t = indexed_record_identity
    [where svc = local_services and st = requeued_retriever and item = ?item and idx = 0]
  from t s d0 have d: "distinct (map fst (collection (snd (process_batch local_services
      requeued_retriever))))"
    by blast
  from t s d1 m l obtain ts where "map_of (collection (snd (process_batch local_services
      requeued_retriever))) (doc_id ?item @ ''_section_'' @ str_nat 0)
      = Some (content (sections ?item ! 0),
              \<lparr>md_doc_id = doc_id ?item, md_title = title (sections ?item ! 0),
               md_page = page (sections ?item ! 0), md_processed_at = ts\<rparr>)"
    by blast
  then have v: "map_option fst (map_of (collection (snd (process_batch local_services
      requeued_retriever))) (''doc_a_01234567'' @ ''_section_'' @ str_nat 0))
      = Some (''Revised scope.'' @ [NL])"
    by simp
  from s k o b a d v show ?thesis by blast
qed

section \<open>Properties of the enqueue trigger\<close>

text \<open>
  The seconds field is not the elapsed time: a day and 30 seconds read as 30, 60.5
  seconds as 60, and one second back in time as 86399.
\<close>

lemma timedelta_seconds_field:
  "timedelta_seconds 86430000000 0 = 30
   \<and> timedelta_seconds 60500000 0 = 60
   \<and> timedelta_seconds (- 1000000) 0 = 86399"
  by (simp add: timedelta_seconds_def)

lemma timedelta_seconds_within_day:
  assumes "0 \<le> a - b" and "a - b < 86400000000"
  shows "timedelta_seconds a b = (a - b) div 1000000"
proof -
  from assms have "0 \<le> (a - b) div 1000000" and "(a - b) div 1000000 < 86400"
    by simp_all
  then show ?thesis by (simp add: timedelta_seconds_def)
qed

lemma add_sections_full:
  assumes "BATCH_SIZE svc \<le> int (length (batch_queue st)) + 1"
  shows "add_sections svc doc uuid_hex secs st =
     process_batch svc
       (st\<lparr>batch_queue := batch_queue st
               @ [\<lparr>doc_id = doc @ ''_'' @ take 8 uuid_hex, sections = secs,
                   timestamp = clock svc (clock_reads st)\<rparr>],
            clock_reads := Suc (clock_reads st)\<rparr>)"
  using assms by (simp add: add_sections_def Let_def)

lemma add_sections_timed:
  assumes "int (length (batch_queue st)) + 1 < BATCH_SIZE svc"
    and "60 < timedelta_seconds (clock svc (Suc (clock_reads st))) (last_process_time st)"
  shows "add_sections svc doc uuid_hex secs st =
     process_batch svc
       (st\<lparr>batch_queue := batch_queue st
               @ [\<lparr>doc_id = doc @ ''_'' @ take 8 uuid_hex, sections = secs,
                   timestamp = clock svc (clock_reads st)\<rparr>],
            clock_reads := Suc (Suc (clock_reads st))\<rparr>)"
  using assms by (simp add: add_sections_def Let_def)

lemma add_sections_wait:
  assumes "int (length (batch_queue st)) + 1 < BATCH_SIZE svc"
    and "timedelta_seconds (clock svc (Suc (clock_reads st))) (last_process_time st) \<le> 60"
  shows "add_sections svc doc uuid_hex secs st =
     (Inr (),
      st\<lparr>batch_queue := batch_queue st
              @ [\<lparr>doc_id = doc @ ''_'' @ take 8 uuid_hex, sections = secs,
                  timestamp = clock svc (clock_reads st)\<rparr>],
           clock_reads := Suc (Suc (clock_reads st))\<rparr>)"
  using assms by (simp add: add_sections_def Let_def)

lemma queued_entries_append:
  "queued_entries clk n (xs @ ys) =
     queued_entries clk n xs @ queued_entries clk (n + 2 * length xs) ys"
  by (induction xs arbitrary: n) simp_all

lemma length_queued_entries: "length (queued_entries clk n items) = length items"
  by (induction items arbitrary: n) simp_all

lemma enqueue_all_append:
  "enqueue_all svc (xs @ ys) st =
     (case enqueue_all svc xs st of
        (Inl e, st') \<Rightarrow> (Inl e, st')
      | (Inr u, st') \<Rightarrow> enqueue_all svc ys st')"
  by (induction xs arbitrary: st) (auto split: prod.splits sum.splits)

lemma enqueue_all_single:
  "enqueue_all svc [item] st = add_sections svc (fst item) (fst (snd item)) (snd (snd item)) st"
  by (auto split: prod.splits sum.splits)

lemma enqueue_all_wait:
  assumes "int (length (batch_queue st)) + int (length items) < BATCH_SIZE svc"
    and "\<forall>k < length items.
           timedelta_seconds (clock svc (clock_reads st + 2 * k + 1)) (last_process_time st) \<le> 60"
  shows "enqueue_all svc items st =
     (Inr (),
      st\<lparr>batch_queue := batch_queue st @ queued_entries (clock svc) (clock_reads st) items,
           clock_reads := clock_reads st + 2 * length items\<rparr>)"
  using assms
proof (induction items arbitrary: st)
  case Nil
  then show ?case by simp
next
  case (Cons item items)
  let ?st1 = "st\<lparr>batch_queue := batch_queue st
              @ [\<lparr>doc_id = fst item @ ''_'' @ take 8 (fst (snd item)), sections = snd (snd item),
                  timestamp = clock svc (clock_reads st)\<rparr>],
           clock_reads := Suc (Suc (clock_reads st))\<rparr>"
  from Cons.prems(2) have "timedelta_seconds (clock svc (clock_reads st + 2 * 0 + 1))
      (last_process_time st) \<le> 60"
    by blast
  then have t0: "timedelta_seconds (clock svc (Suc (clock_reads st))) (last_process_time st) \<le> 60"
    by simp
  from Cons.prems(1) have l0: "int (length (batch_queue st)) + 1 < BATCH_SIZE svc"
    by simp
  have step: "add_sections svc (fst item) (fst (snd item)) (snd (snd item)) st = (Inr (), ?st1)"
    by (rule add_sections_wait [OF l0 t0])
  from Cons.prems(1) have l1: "int (length (batch_queue ?st1)) + int (length items) < BATCH_SIZE svc"
    by simp
  have t1: "\<forall>k < length items.
      timedelta_seconds (clock svc (clock_reads ?st1 + 2 * k + 1)) (last_process_time ?st1) \<le> 60"
  proof (intro allI impI)
    fix k assume "k < length items"
    then have "Suc k < length (item # items)" by simp
    with Cons.prems(2) have "timedelta_seconds (clock svc (clock_reads st + 2 * Suc k + 1))
        (last_process_time st) \<le> 60"
      by blast
    then show "timedelta_seconds (clock svc (clock_reads ?st1 + 2 * k + 1))
        (last_process_time ?st1) \<le> 60"
      by simp
  qed
  from Cons.IH [OF l1 t1] step show ?case by simp
qed

text \<open>
  Enqueuing as many entries as the batch size, from an empty queue, each within 60
  seconds of the last flush: the entries before the last are queued, and the last one
  flushes them all in one insert.
\<close>

lemma enqueue_whole_batch:
  assumes size: "BATCH_SIZE svc = int (length items)" and ne: "items \<noteq> []"
    and empty: "batch_queue st = []"
    and quick: "\<forall>k < length items - 1.
        0 \<le> clock svc (clock_reads st + 2 * k + 1) - last_process_time st
      \<and> clock svc (clock_reads st + 2 * k + 1) - last_process_time st \<le> 60000000"
    and recs: "recs = batch_records (clock svc) (clock_reads st + 2 * length items - 1)
                 (queued_entries (clock svc) (clock_reads st) items)"
    and ok: "collection_add svc (map fst recs) (map (fst \<circ> snd) recs) (map (snd \<circ> snd) recs)
               (collection st) = Inr v"
  shows "enqueue_all svc items st =
      (Inr (),
       st\<lparr>collection := v,
            last_process_time := clock svc (clock_reads st + 2 * length items - 1 + length recs),
            clock_reads := clock_reads st + 2 * length items + length recs,
            batch_queue := []\<rparr>)"
    and "k < length items \<Longrightarrow>
      enqueue_all svc (take k items) st =
      (Inr (),
       st\<lparr>batch_queue := queued_entries (clock svc) (clock_reads st) (take k items),
            clock_reads := clock_reads st + 2 * k\<rparr>)"
proof -
  have td: "timedelta_seconds (clock svc (clock_reads st + 2 * j + 1)) (last_process_time st) \<le> 60"
    if "j < length items - 1" for j
  proof -
    from quick that
    have a: "0 \<le> clock svc (clock_reads st + 2 * j + 1) - last_process_time st"
      and b: "clock svc (clock_reads st + 2 * j + 1) - last_process_time st \<le> 60000000"
      by blast+
    from b have "clock svc (clock_reads st + 2 * j + 1) - last_process_time st < 86400000000"
      by simp
    from timedelta_seconds_within_day [OF a this] b show ?thesis by simp
  qed
  have wait: "enqueue_all svc (take j items) st =
      (Inr (),
       st\<lparr>batch_queue := queued_entries (clock svc) (clock_reads st) (take j items),
            clock_reads := clock_reads st + 2 * j\<rparr>)" if "j < length items" for j
  proof -
    from that size empty
    have l: "int (length (batch_queue st)) + int (length (take j items)) < BATCH_SIZE svc"
      by simp
    from that td have "\<forall>i < length (take j items).
        timedelta_seconds (clock svc (clock_reads st + 2 * i + 1)) (last_process_time st) \<le> 60"
      by simp
    from enqueue_all_wait [OF l this] that empty show ?thesis by simp
  qed
  show "k < length items \<Longrightarrow>
      enqueue_all svc (take k items) st =
      (Inr (),
       st\<lparr>batch_queue := queued_entries (clock svc) (clock_reads st) (take k items),
            clock_reads := clock_reads st + 2 * k\<rparr>)"
    by (rule wait)
  let ?n = "length items"
  let ?front = "take (?n - 1) items"
  let ?mid = "st\<lparr>batch_queue := queued_entries (clock svc) (clock_reads st) ?front,
            clock_reads := clock_reads st + 2 * (?n - 1)\<rparr>"
  from ne have split: "items = ?front @ [last items]"
    by (metis append_butlast_last_id butlast_conv_take)
  from ne have n: "0 < ?n" by simp
  then have w: "enqueue_all svc ?front st = (Inr (), ?mid)"
    by (intro wait) simp
  let ?full = "?mid\<lparr>batch_queue := batch_queue ?mid
               @ [\<lparr>doc_id = fst (last items) @ ''_'' @ take 8 (fst (snd (last items))),
                   sections = snd (snd (last items)),
                   timestamp = clock svc (clock_reads ?mid)\<rparr>],
            clock_reads := Suc (clock_reads ?mid)\<rparr>"
  from size n have "BATCH_SIZE svc \<le> int (length (batch_queue ?mid)) + 1"
    by (simp add: length_queued_entries)
  then have a: "add_sections svc (fst (last items)) (fst (snd (last items)))
      (snd (snd (last items))) ?mid = process_batch svc ?full"
    by (rule add_sections_full)
  have "queued_entries (clock svc) (clock_reads st) items =
      queued_entries (clock svc) (clock_reads st) ?front
      @ queued_entries (clock svc) (clock_reads st + 2 * length ?front) [last items]"
    by (subst split) (rule queued_entries_append)
  with n have q: "batch_queue ?full = queued_entries (clock svc) (clock_reads st) items"
    by simp
  from n have c: "clock_reads ?full = clock_reads st + 2 * ?n - 1"
    by (cases "length items") simp_all
  from q ne have q0: "batch_queue ?full \<noteq> []"
    by (cases items) simp_all
  have r: "recs = batch_records (clock svc) (clock_reads ?full) (batch_queue ?full)"
    unfolding q c by (rule recs)
  have o: "collection_add svc (map fst recs) (map (fst \<circ> snd) recs) (map (snd \<circ> snd) recs)
      (collection ?full) = Inr v"
    using ok by simp
  note p = process_batch_ok [OF q0 r o]
  have "enqueue_all svc items st = enqueue_all svc (?front @ [last items]) st"
    using split by simp
  also have "\<dots> = process_batch svc ?full"
    by (simp only: enqueue_all_append w prod.case sum.case enqueue_all_single a)
  finally have e: "enqueue_all svc items st = process_batch svc ?full" .
  from n obtain m where m: "length items = Suc m"
    by (cases "length items") simp_all
  from p e show "enqueue_all svc items st =
      (Inr (),
       st\<lparr>collection := v,
            last_process_time := clock svc (clock_reads st + 2 * length items - 1 + length recs),
            clock_reads := clock_reads st + 2 * length items + length recs,
            batch_queue := []\<rparr>)"
    by (simp add: m)
qed

text \<open>
  C4, as stated, fails. With a batch size of 2 and an empty queue, the first of two
  uploads arrives 61 seconds after the last flush, so it is flushed on its own by the
  time trigger; the second one stays in the queue. Two entries have been enqueued and
  the queue is not empty.
\<close>

theorem enqueue_batch_counterexample:
  "BATCH_SIZE idle_services = 2
   \<and> length sample_uploads = 2
   \<and> batch_queue new_retriever = []
   \<and> fst (enqueue_all idle_services sample_uploads new_retriever) = Inr ()
   \<and> map doc_id (batch_queue (snd (enqueue_all idle_services sample_uploads new_retriever)))
       = [''doc_b_fedcba98'']
   \<and> map fst (collection (snd (enqueue_all idle_services sample_uploads new_retriever)))
       = [''doc_a_01234567_section_0'', ''doc_a_01234567_section_1'']"
  by code_simp

text \<open>
  C4, amended. \<open>add_sections\<close> appends one entry; then (1) it flushes when the queue has
  reached the batch size; with a shorter queue and a time since the last flush between
  0 and one day, (2) it flushes when that time is at least 61 seconds and (3) it does
  not flush when that time is at most 60 seconds. (4) Enqueuing as many entries as the
  batch size, at least one, from an empty queue, each but the last checked within 60
  seconds of the last flush, with an insert that succeeds: the calls return, the store
  is the result of the one insert of all the entries' records, the queue is empty, and
  no proper prefix of the calls touches the store. (5) Flushing an empty queue returns
  the state as it is, whatever the store's insert would do.
\<close>

theorem enqueue_trigger:
  "(BATCH_SIZE svc \<le> int (length (batch_queue st)) + 1 \<longrightarrow>
      add_sections svc doc uuid_hex secs st =
        process_batch svc
          (st\<lparr>batch_queue := batch_queue st
                  @ [\<lparr>doc_id = doc @ ''_'' @ take 8 uuid_hex, sections = secs,
                      timestamp = clock svc (clock_reads st)\<rparr>],
               clock_reads := Suc (clock_reads st)\<rparr>))
   \<and> (int (length (batch_queue st)) + 1 < BATCH_SIZE svc
        \<and> 61000000 \<le> clock svc (Suc (clock_reads st)) - last_process_time st
        \<and> clock svc (Suc (clock_reads st)) - last_process_time st < 86400000000 \<longrightarrow>
      add_sections svc doc uuid_hex secs st =
        process_batch svc
          (st\<lparr>batch_queue := batch_queue st
                  @ [\<lparr>doc_id = doc @ ''_'' @ take 8 uuid_hex, sections = secs,
                      timestamp = clock svc (clock_reads st)\<rparr>],
               clock_reads := Suc (Suc (clock_reads st))\<rparr>))
   \<and> (int (length (batch_queue st)) + 1 < BATCH_SIZE svc
        \<and> 0 \<le> clock svc (Suc (clock_reads st)) - last_process_time st
        \<and> clock svc (Suc (clock_reads st)) - last_process_time st \<le> 60000000 \<longrightarrow>
      add_sections svc doc uuid_hex secs st =
        (Inr (),
         st\<lparr>batch_queue := batch_queue st
                 @ [\<lparr>doc_id = doc @ ''_'' @ take 8 uuid_hex, sections = secs,
                     timestamp = clock svc (clock_reads st)\<rparr>],
              clock_reads := Suc (Suc (clock_reads st))\<rparr>))
   \<and> (BATCH_SIZE svc = int (length items) \<and> items \<noteq> [] \<and> batch_queue st = []
        \<and> (\<forall>k < length items - 1.
              0 \<le> clock svc (clock_reads st + 2 * k + 1) - last_process_time st
            \<and> clock svc (clock_reads st + 2 * k + 1) - last_process_time st \<le> 60000000)
        \<and> recs = batch_records (clock svc) (clock_reads st + 2 * length items - 1)
                   (queued_entries (clock svc) (clock_reads st) items)
        \<and> collection_add svc (map fst recs) (map (fst \<circ> snd) recs) (map (snd \<circ> snd) recs)
              (collection st) = Inr v \<longrightarrow>
      enqueue_all svc items st =
        (Inr (),
         st\<lparr>collection := v,
              last_process_time := clock svc (clock_reads st + 2 * length items - 1 + length recs),
              clock_reads := clock_reads st + 2 * length items + length recs,
              batch_queue := []\<rparr>)
      \<and> (\<forall>k < length items.
            enqueue_all svc (take k items) st =
              (Inr (),
               st\<lparr>batch_queue := queued_entries (clock svc) (clock_reads st) (take k items),
                    clock_reads := clock_reads st + 2 * k\<rparr>)))
   \<and> (batch_queue st = [] \<longrightarrow> process_batch svc st = (Inr (), st))"
proof (intro conjI impI allI)
  assume "BATCH_SIZE svc \<le> int (length (batch_queue st)) + 1"
  then show "add_sections svc doc uuid_hex secs st =
        process_batch svc
          (st\<lparr>batch_queue := batch_queue st
                  @ [\<lparr>doc_id = doc @ ''_'' @ take 8 uuid_hex, sections = secs,
                      timestamp = clock svc (clock_reads st)\<rparr>],
               clock_reads := Suc (clock_reads st)\<rparr>)"
    by (rule add_sections_full)
next
  assume a: "int (length (batch_queue st)) + 1 < BATCH_SIZE svc
        \<and> 61000000 \<le> clock svc (Suc (clock_reads st)) - last_process_time st
        \<and> clock svc (Suc (clock_reads st)) - last_process_time st < 86400000000"
  then have "timedelta_seconds (clock svc (Suc (clock_reads st))) (last_process_time st)
      = (clock svc (Suc (clock_reads st)) - last_process_time st) div 1000000"
    by (intro timedelta_seconds_within_day) simp_all
  with a have "60 < timedelta_seconds (clock svc (Suc (clock_reads st))) (last_process_time st)"
    by arith
  with a show "add_sections svc doc uuid_hex secs st =
        process_batch svc
          (st\<lparr>batch_queue := batch_queue st
                  @ [\<lparr>doc_id = doc @ ''_'' @ take 8 uuid_hex, sections = secs,
                      timestamp = clock svc (clock_reads st)\<rparr>],
               clock_reads := Suc (Suc (clock_reads st))\<rparr>)"
    by (intro add_sections_timed) simp_all
next
  assume a: "int (length (batch_queue st)) + 1 < BATCH_SIZE svc
        \<and> 0 \<le> clock svc (Suc (clock_reads st)) - last_process_time st
        \<and> clock svc (Suc (clock_reads st)) - last_process_time st \<le> 60000000"
  then have "timedelta_seconds (clock svc (Suc (clock_reads st))) (last_process_time st)
      = (clock svc (Suc (clock_reads st)) - last_process_time st) div 1000000"
    by (intro timedelta_seconds_within_day) simp_all
  with a have "timedelta_seconds (clock svc (Suc (clock_reads st))) (last_process_time st) \<le> 60"
    by arith
  with a show "add_sections svc doc uuid_hex secs st =
        (Inr (),
         st\<lparr>batch_queue := batch_queue st
                 @ [\<lparr>doc_id = doc @ ''_'' @ take 8 uuid_hex, sections = secs,
                     timestamp = clock svc (clock_reads st)\<rparr>],
              clock_reads := Suc (Suc (clock_reads st))\<rparr>)"
    by (intro add_sections_wait) simp_all
next
  assume a: "BATCH_SIZE svc = int (length items) \<and> items \<noteq> [] \<and> batch_queue st = []
        \<and> (\<forall>k < length items - 1.
              0 \<le> clock svc (clock_reads st + 2 * k + 1) - last_process_time st
            \<and> clock svc (clock_reads st + 2 * k + 1) - last_process_time st \<le> 60000000)
        \<and> recs = batch_records (clock svc) (clock_reads st + 2 * length items - 1)
                   (queued_entries (clock svc) (clock_reads st) items)
        \<and> collection_add svc (map fst recs) (map (fst \<circ> snd) recs) (map (snd \<circ> snd) recs)
              (collection st) = Inr v"
  then show "enqueue_all svc items st =
        (Inr (),
         st\<lparr>collection := v,
              last_process_time := clock svc (clock_reads st + 2 * length items - 1 + length recs),
              clock_reads := clock_reads st + 2 * length items + length recs,
              batch_queue := []\<rparr>)"
    by (intro enqueue_whole_batch(1)) blast+
next
  fix k
  assume a: "BATCH_SIZE svc = int (length items) \<and> items \<noteq> [] \<and> batch_queue st = []
        \<and> (\<forall>k < length items - 1.
              0 \<le> clock svc (clock_reads st + 2 * k + 1) - last_process_time st
            \<and> clock svc (clock_reads st + 2 * k + 1) - last_process_time st \<le> 60000000)
        \<and> recs = batch_records (clock svc) (clock_reads st + 2 * length items - 1)
                   (queued_entries (clock svc) (clock_reads st) items)
        \<and> collection_add svc (map fst recs) (map (fst \<circ> snd) recs) (map (snd \<circ> snd) recs)
              (collection st) = Inr v"
    and k: "k < length items"
  from a have 1: "BATCH_SIZE svc = int (length items)" and 2: "items \<noteq> []"
    and 3: "batch_queue st = []"
    and 4: "\<forall>k < length items - 1.
              0 \<le> clock svc (clock_reads st + 2 * k + 1) - last_process_time st
            \<and> clock svc (clock_reads st + 2 * k + 1) - last_process_time st \<le> 60000000"
    and 5: "recs = batch_records (clock svc) (clock_reads st + 2 * length items - 1)
                   (queued_entries (clock svc) (clock_reads st) items)"
    and 6: "collection_add svc (map fst recs) (map (fst \<circ> snd) recs) (map (snd \<circ> snd) recs)
              (collection st) = Inr v"
    by blast+
  show "enqueue_all svc (take k items) st =
              (Inr (),
               st\<lparr>batch_queue := queued_entries (clock svc) (clock_reads st) (take k items),
                    clock_reads := clock_reads st + 2 * k\<rparr>)"
    by (rule enqueue_whole_batch(2) [OF 1 2 3 4 5 6 k])
next
  assume "batch_queue st = []"
  then show "process_batch svc st = (Inr (), st)"
    by (rule process_batch_empty)
qed

theorem enqueue_trigger_witness:
  "add_sections local_services ''doc_b'' ''fedcba9876543210'' sample_sections queued_retriever =
     process_batch local_services
       (queued_retriever
          \<lparr>batch_queue := batch_queue queued_retriever
             @ [\<lparr>doc_id = ''doc_b'' @ ''_'' @ take 8 ''fedcba9876543210'',
                 sections = sample_sections,
                 timestamp = clock local_services (clock_reads queued_retriever)\<rparr>],
           clock_reads := Suc (clock_reads queued_retriever)\<rparr>)
   \<and> add_sections idle_services ''doc_a'' ''0123456789abcdef'' sample_sections new_retriever =
     process_batch idle_services
       (new_retriever
          \<lparr>batch_queue := batch_queue new_retriever
             @ [\<lparr>doc_id = ''doc_a'' @ ''_'' @ take 8 ''0123456789abcdef'',
                 sections = sample_sections,
                 timestamp = clock idle_services (clock_reads new_retriever)\<rparr>],
           clock_reads := Suc (Suc (clock_reads new_retriever))\<rparr>)
   \<and> add_sections local_services ''doc_a'' ''0123456789abcdef'' sample_sections new_retriever =
     (Inr (),
      new_retriever
          \<lparr>batch_queue := batch_queue new_retriever
             @ [\<lparr>doc_id = ''doc_a'' @ ''_'' @ take 8 ''0123456789abcdef'',
                 sections = sample_sections,
                 timestamp = clock local_services (clock_reads new_retriever)\<rparr>],
           clock_reads := Suc (Suc (clock_reads new_retriever))\<rparr>)
   \<and> fst (enqueue_all local_services sample_uploads new_retriever) = Inr ()
   \<and> batch_queue (snd (enqueue_all local_services sample_uploads new_retriever)) = []
   \<and> map fst (collection (snd (enqueue_all local_services sample_uploads new_retriever)))
       = [''doc_a_01234567_section_0'', ''doc_a_01234567_section_1'',
          ''doc_b_fedcba98_section_0'', ''doc_b_fedcba98_section_1'']
   \<and> collection (snd (enqueue_all local_services (take 1 sample_uploads) new_retriever)) = []
   \<and> process_batch failing_services new_retriever = (Inr (), new_retriever)"
proof -
  let ?recs = "batch_records (clock local_services)
      (clock_reads new_retriever + 2 * length sample_uploads - 1)
      (queued_entries (clock local_services) (clock_reads new_retriever) sample_uploads)"
  let ?v = "store_insert (map fst ?recs) (map (fst \<circ> snd) ?recs) (map (snd \<circ> snd) ?recs)
      (collection new_retriever)"
  have full: "BATCH_SIZE local_services \<le> int (length (batch_queue queued_retriever)) + 1"
    by code_simp
  have short_idle: "int (length (batch_queue new_retriever)) + 1 < BATCH_SIZE idle_services"
    by code_simp
  have late: "61000000 \<le> clock idle_services (Suc (clock_reads new_retriever))
      - last_process_time new_retriever"
    by code_simp
  have day: "clock idle_services (Suc (clock_reads new_retriever))
      - last_process_time new_retriever < 86400000000"
    by code_simp
  have short: "int (length (batch_queue new_retriever)) + 1 < BATCH_SIZE local_services"
    by code_simp
  have pos: "0 \<le> clock local_services (Suc (clock_reads new_retriever))
      - last_process_time new_retriever"
    by code_simp
  have early: "clock local_services (Suc (clock_reads new_retriever))
      - last_process_time new_retriever \<le> 60000000"
    by code_simp
  have size: "BATCH_SIZE local_services = int (length sample_uploads)"
    by code_simp
  have ne: "sample_uploads \<noteq> []" by code_simp
  have empty: "batch_queue new_retriever = []" by code_simp
  have quick: "\<forall>k < length sample_uploads - 1.
      0 \<le> clock local_services (clock_reads new_retriever + 2 * k + 1)
           - last_process_time new_retriever
      \<and> clock local_services (clock_reads new_retriever + 2 * k + 1)
           - last_process_time new_retriever \<le> 60000000"
    by (simp add: sample_uploads_def local_services_def new_retriever_def)
  have ok: "collection_add local_services (map fst ?recs) (map (fst \<circ> snd) ?recs)
      (map (snd \<circ> snd) ?recs) (collection new_retriever) = Inr ?v"
    by (simp add: local_services_def store_add_def)
  have one: "1 < length sample_uploads" by code_simp
  have ids: "map fst ?v = [''doc_a_01234567_section_0'', ''doc_a_01234567_section_1'',
          ''doc_b_fedcba98_section_0'', ''doc_b_fedcba98_section_1'']"
    by code_simp
  have c0: "collection new_retriever = []" by code_simp
  note a = enqueue_trigger
    [where svc = local_services and st = queued_retriever and doc = "''doc_b''"
       and uuid_hex = "''fedcba9876543210''" and secs = sample_sections]
  note b = enqueue_trigger
    [where svc = idle_services and st = new_retriever and doc = "''doc_a''"
       and uuid_hex = "''0123456789abcdef''" and secs = sample_sections]
  note c = enqueue_trigger
    [where svc = local_services and st = new_retriever and doc = "''doc_a''"
       and uuid_hex = "''0123456789abcdef''" and secs = sample_sections
       and items = sample_uploads and recs = ?recs and v = ?v]
  note e = enqueue_trigger [where svc = failing_services and st = new_retriever]
  from a full have r1: "add_sections local_services ''doc_b'' ''fedcba9876543210''
      sample_sections queued_retriever =
     process_batch local_services
       (queued_retriever
          \<lparr>batch_queue := batch_queue queued_retriever
             @ [\<lparr>doc_id = ''doc_b'' @ ''_'' @ take 8 ''fedcba9876543210'',
                 sections = sample_sections,
                 timestamp = clock local_services (clock_reads queued_retriever)\<rparr>],
           clock_reads := Suc (clock_reads queued_retriever)\<rparr>)"
    by blast
  from b short_idle late day have r2: "add_sections idle_services ''doc_a'' ''0123456789abcdef''
      sample_sections new_retriever =
     process_batch idle_services
       (new_retriever
          \<lparr>batch_queue := batch_queue new_retriever
             @ [\<lparr>doc_id = ''doc_a'' @ ''_'' @ take 8 ''0123456789abcdef'',
                 sections = sample_sections,
                 timestamp = clock idle_services (clock_reads new_retriever)\<rparr>],
           clock_reads := Suc (Suc (clock_reads new_retriever))\<rparr>)"
    by blast
  from c short pos early have r3: "add_sections local_services ''doc_a'' ''0123456789abcdef''
      sample_sections new_retriever =
     (Inr (),
      new_retriever
          \<lparr>batch_queue := batch_queue new_retriever
             @ [\<lparr>doc_id = ''doc_a'' @ ''_'' @ take 8 ''0123456789abcdef'',
                 sections = sample_sections,
                 timestamp = clock local_services (clock_reads new_retriever)\<rparr>],
           clock_reads := Suc (Suc (clock_reads new_retriever))\<rparr>)"
    by blast
  from c size ne empty quick ok
  have r4: "enqueue_all local_services sample_uploads new_retriever =
        (Inr (),
         new_retriever\<lparr>collection := ?v,
              last_process_time := clock local_services
                (clock_reads new_retriever + 2 * length sample_uploads - 1 + length ?recs),
              clock_reads := clock_reads new_retriever + 2 * length sample_uploads + length ?recs,
              batch_queue := []\<rparr>)"
    and r5: "\<forall>k < length sample_uploads.
            enqueue_all local_services (take k sample_uploads) new_retriever =
              (Inr (),
               new_retriever\<lparr>batch_queue := queued_entries (clock local_services)
                      (clock_reads new_retriever) (take k sample_uploads),
                    clock_reads := clock_reads new_retriever + 2 * k\<rparr>)"
    by blast+
  from r4 have r4a: "fst (enqueue_all local_services sample_uploads new_retriever) = Inr ()"
    and r4b: "batch_queue (snd (enqueue_all local_services sample_uploads new_retriever)) = []"
    and r4c: "collection (snd (enqueue_all local_services sample_uploads new_retriever)) = ?v"
    by simp_all
  from r5 one have "enqueue_all local_services (take 1 sample_uploads) new_retriever =
              (Inr (),
               new_retriever\<lparr>batch_queue := queued_entries (clock local_services)
                      (clock_reads new_retriever) (take 1 sample_uploads),
                    clock_reads := clock_reads new_retriever + 2 * 1\<rparr>)"
    by blast
  then have r5a: "collection (snd (enqueue_all local_services (take 1 sample_uploads)
      new_retriever)) = []"
    by (simp add: c0)
  from e empty have r6: "process_batch failing_services new_retriever = (Inr (), new_retriever)"
    by blast
  from r1 r2 r3 r4a r4b r4c [unfolded ids [symmetric]] r5a r6 ids show ?thesis
    by (simp only: simp_thms)
qed

end
